theory Spec2Isabelle
  imports Main
begin

section \<open>Errors\<close>

text \<open>
  Every exception of \<^verbatim>\<open>gunpowder/nodes/downsample.py\<close> is a value. The two
  \<^verbatim>\<open>assert\<close> statements on ROI containment (lines 79 and 113) are
  \<open>ContainmentViolation\<close>, the \<^verbatim>\<open>assert\<close> on the shape of the strided data
  (line 94) is \<open>ShapeMismatch\<close>, a failed dictionary lookup is \<open>KeyError\<close> with the
  missing key, and \<open>IndexError\<close> and \<open>ValueError\<close> are what array indexing raises for
  too many indices and for a slice step of zero.
\<close>

type_synonym volume_type = string

datatype error =
    KeyError volume_type
  | DimensionMismatch
  | ContainmentViolation
  | ShapeMismatch
  | IndexError
  | ValueError

definition ebind :: "error + 'a \<Rightarrow> ('a \<Rightarrow> error + 'b) \<Rightarrow> error + 'b" where
  "ebind m k = (case m of Inl e \<Rightarrow> Inl e | Inr x \<Rightarrow> k x)"

definition lookup :: "(volume_type \<rightharpoonup> 'v) \<Rightarrow> volume_type \<Rightarrow> error + 'v" where
  \<comment> \<open>\<^verbatim>\<open>d[k]\<close> on a Python dict.\<close>
  "lookup d k = (case d k of None \<Rightarrow> Inl (KeyError k) | Some v \<Rightarrow> Inr v)"

section \<open>Coordinate and ROI algebra\<close>

text \<open>
  Modelled from the spec: the classes \<^verbatim>\<open>Coordinate\<close> and \<^verbatim>\<open>Roi\<close>
  (\<^verbatim>\<open>gunpowder/coordinate.py\<close>, \<^verbatim>\<open>gunpowder/roi.py\<close>) are imported by
  \<^verbatim>\<open>downsample.py\<close> but are not among the source files. A coordinate is an
  ordered tuple of Python integers. Arithmetic between two coordinates requires matching
  dimensionality and is \<open>DimensionMismatch\<close> otherwise. A scaling factor is a single
  integer, applied to every dimension, or one integer per dimension.
\<close>

type_synonym coordinate = "int list"

datatype factor = Uniform int | PerAxis "int list"

definition coord_zip ::
  "(int \<Rightarrow> int \<Rightarrow> int) \<Rightarrow> coordinate \<Rightarrow> coordinate \<Rightarrow> error + coordinate" where
  "coord_zip g a b =
     (if length a = length b then Inr (map2 g a b) else Inl DimensionMismatch)"

definition coord_add :: "coordinate \<Rightarrow> coordinate \<Rightarrow> error + coordinate" where
  "coord_add a b = coord_zip (+) a b"

definition coord_sub :: "coordinate \<Rightarrow> coordinate \<Rightarrow> error + coordinate" where
  "coord_sub a b = coord_zip (-) a b"

fun coord_mul :: "coordinate \<Rightarrow> factor \<Rightarrow> error + coordinate" where
  "coord_mul a (Uniform k) = Inr (map (\<lambda>x. x * k) a)"
| "coord_mul a (PerAxis ks) = coord_zip (*) a ks"

text \<open>
  Modelled from the spec: a ROI is an offset and a shape. The data model's invariant is
  that both have the same dimensionality and that no shape component is negative;
  operations inside one ROI pair offset and shape componentwise.
\<close>

record roi =
  offset :: coordinate
  shape :: coordinate

definition roi_invariant :: "roi \<Rightarrow> bool" where
  "roi_invariant r = (length (offset r) = length (shape r) \<and> list_all (\<lambda>s. 0 \<le> s) (shape r))"

definition dims :: "roi \<Rightarrow> nat" where
  "dims r = length (offset r)"

definition get_begin :: "roi \<Rightarrow> coordinate" where
  "get_begin r = offset r"

definition get_end :: "roi \<Rightarrow> coordinate" where
  "get_end r = map2 (+) (offset r) (shape r)"

definition get_shape :: "roi \<Rightarrow> coordinate" where
  "get_shape r = shape r"

definition get_center :: "roi \<Rightarrow> coordinate" where
  \<comment> \<open>\<open>offset + shape/2\<close> in integer arithmetic; Python's integer division floors.\<close>
  "get_center r = map2 (+) (offset r) (map (\<lambda>s. s div 2) (shape r))"

definition roi_mul :: "roi \<Rightarrow> factor \<Rightarrow> error + roi" where
  \<comment> \<open>\<open>scale(roi, factor)\<close>: offset and shape are both multiplied componentwise.\<close>
  "roi_mul r f =
     ebind (coord_mul (offset r) f) (\<lambda>off.
     ebind (coord_mul (shape r) f) (\<lambda>shp.
     Inr \<lparr>offset = off, shape = shp\<rparr>))"

definition roi_sub :: "roi \<Rightarrow> coordinate \<Rightarrow> error + roi" where
  \<comment> \<open>\<open>roi - c\<close>: the translation of the ROI by \<open>-c\<close>.\<close>
  "roi_sub r c = ebind (coord_sub (offset r) c) (\<lambda>off. Inr (r\<lparr>offset := off\<rparr>))"

definition roi_empty :: "roi \<Rightarrow> bool" where
  "roi_empty r = list_ex (\<lambda>s. s \<le> 0) (shape r)"

definition contains :: "roi \<Rightarrow> roi \<Rightarrow> bool" where
  \<comment> \<open>\<open>contains(a, b)\<close>: true iff every coordinate in \<open>b\<close> lies within \<open>a\<close>.\<close>
  "contains a b =
     (roi_empty b \<or>
      (list_all2 (\<le>) (get_begin a) (get_begin b) \<and> list_all2 (\<le>) (get_end b) (get_end a)))"

definition roi_union :: "roi \<Rightarrow> roi \<Rightarrow> error + roi" where
  \<comment> \<open>\<open>union(a, b)\<close>: the smallest box that contains both.\<close>
  "roi_union a b =
     (if length (get_begin a) = length (get_begin b) \<and> length (get_end a) = length (get_end b)
      then
        (let lo = map2 min (get_begin a) (get_begin b);
             hi = map2 max (get_end a) (get_end b)
         in ebind (coord_sub hi lo) (\<lambda>shp. Inr \<lparr>offset = lo, shape = shp\<rparr>))
      else Inl DimensionMismatch)"

section \<open>The center-preserving scale\<close>

text \<open>
  \<^verbatim>\<open>DownSample.__scale_roi\<close> (lines 121 to 128):
  \<^verbatim>\<open>
    prev_center = roi.get_center()
    scaled_roi = roi*f
    new_center = scaled_roi.get_center()
    scaled_roi = scaled_roi - (new_center - prev_center)
    return scaled_roi
  \<close>
\<close>

definition scale_roi :: "roi \<Rightarrow> factor \<Rightarrow> error + roi" where
  "scale_roi r f =
     (let prev_center = get_center r in
      ebind (roi_mul r f) (\<lambda>scaled_roi.
      let new_center = get_center scaled_roi in
      ebind (coord_sub new_center prev_center) (\<lambda>shift.
      roi_sub scaled_roi shift)))"

section \<open>Requests and the configuration\<close>

text \<open>
  A request maps a volume type to the ROI wanted for it (\<^verbatim>\<open>request.volumes\<close>).
  The configuration \<^verbatim>\<open>volume_factors\<close> is documented as a dict from the input
  volume type to \<^verbatim>\<open>(f, output_volume)\<close>. The node reads it only through
  \<^verbatim>\<open>volume_factors.items()\<close>; the list below is that sequence in iteration order,
  one triple \<open>(input, f, output)\<close> per entry. \<^verbatim>\<open>__init__\<close> checks the entries, not
  the container, so a sequence of items in which an input volume type occurs twice (the
  items of a multi-valued mapping) is taken as well; \<open>valid_config\<close> says that the
  items are those of a dict and passed the assertions of \<^verbatim>\<open>__init__\<close>.
\<close>

type_synonym request = "volume_type \<rightharpoonup> roi"

type_synonym config = "(volume_type \<times> factor \<times> volume_type) list"

definition inputs :: "config \<Rightarrow> volume_type list" where
  "inputs cfg = map fst cfg"

definition outputs :: "config \<Rightarrow> volume_type list" where
  "outputs cfg = map (\<lambda>(i, f, out). out) cfg"

definition valid_config :: "config \<Rightarrow> bool" where
  \<comment> \<open>Keys of a dict are unique; \<^verbatim>\<open>__init__\<close> (line 34) asserts that no output
      volume type is used twice.\<close>
  "valid_config cfg = (distinct (inputs cfg) \<and> distinct (outputs cfg))"

text \<open>
  The body of the loop of \<^verbatim>\<open>prepare\<close> (lines 43 to 64) for one entry, and the
  loop itself. An exception ends the loop.
\<close>

definition prepare_pair ::
  "volume_type \<Rightarrow> factor \<Rightarrow> volume_type \<Rightarrow> request \<Rightarrow> error + request" where
  "prepare_pair input_volume f output_volume req =
     (case req output_volume of
        None \<Rightarrow> Inr req
      | Some request_roi \<Rightarrow>
          ebind (scale_roi request_roi f) (\<lambda>scaled_roi.
          ebind (case req input_volume of
                   Some existing \<Rightarrow> roi_union existing scaled_roi
                 | None \<Rightarrow> Inr scaled_roi) (\<lambda>merged.
          Inr ((req(input_volume \<mapsto> merged))(output_volume := None)))))"

fun prepare :: "config \<Rightarrow> request \<Rightarrow> error + request" where
  "prepare [] req = Inr req"
| "prepare ((input_volume, f, output_volume) # cfg) req =
     ebind (prepare_pair input_volume f output_volume req) (prepare cfg)"

section \<open>Arrays\<close>

text \<open>
  The data of a volume is a dense array (numpy's \<^verbatim>\<open>ndarray\<close>): its shape and
  the element at every index inside the shape. \<open>aget\<close> is read only at indices inside
  \<open>ashape\<close>.
\<close>

record 'a ndarray =
  ashape :: "int list"
  aget :: "int list \<Rightarrow> 'a"

text \<open>
  A Python slice \<^verbatim>\<open>slice(start, stop, step)\<close>, \<open>None\<close> for an absent part, and
  what it selects from a dimension of length \<open>n\<close>: the first index, the step and the
  number of elements, as CPython's \<^verbatim>\<open>slice.indices\<close> adjusts them (a negative
  bound counts from the end, bounds are clipped to the dimension, a step of zero is a
  \<^verbatim>\<open>ValueError\<close>).
\<close>

datatype pyslice = Slice "int option" "int option" "int option"

definition slice_indices :: "int \<Rightarrow> pyslice \<Rightarrow> error + (int \<times> int \<times> int)" where
  "slice_indices n s =
     (case s of Slice a b c \<Rightarrow>
        (let step = (case c of None \<Rightarrow> 1 | Some k \<Rightarrow> k) in
         if step = 0 then Inl ValueError
         else
           (let lower = (if step < 0 then - 1 else 0);
                upper = (if step < 0 then n - 1 else n);
                start = (case a of
                           None \<Rightarrow> (if step < 0 then upper else lower)
                         | Some i \<Rightarrow> (if i < 0 then max (i + n) lower else min i upper));
                stop = (case b of
                          None \<Rightarrow> (if step < 0 then lower else upper)
                        | Some i \<Rightarrow> (if i < 0 then max (i + n) lower else min i upper));
                len = (if step < 0
                       then (if stop < start then (start - stop - 1) div (- step) + 1 else 0)
                       else (if start < stop then (stop - start - 1) div step + 1 else 0))
            in Inr (start, step, len))))"

fun slice_dims :: "int list \<Rightarrow> pyslice list \<Rightarrow> error + (int \<times> int \<times> int) list" where
  "slice_dims ns [] = Inr (map (\<lambda>n. (0, 1, n)) ns)"
| "slice_dims [] (s # ss) = Inl IndexError"
| "slice_dims (n # ns) (s # ss) =
     ebind (slice_indices n s) (\<lambda>t.
     ebind (slice_dims ns ss) (\<lambda>ts. Inr (t # ts)))"

definition np_getitem :: "'a ndarray \<Rightarrow> pyslice list \<Rightarrow> error + 'a ndarray" where
  \<comment> \<open>\<^verbatim>\<open>arr[slices]\<close> for a tuple of slices: one slice per leading dimension, the
      dimensions after them are kept whole.\<close>
  "np_getitem arr ss =
     (if length (ashape arr) < length ss then Inl IndexError
      else
        ebind (slice_dims (ashape arr) ss) (\<lambda>ts.
        Inr \<lparr>ashape = map (\<lambda>(start, step, len). len) ts,
             aget = (\<lambda>idx. aget arr (map2 (\<lambda>(start, step, len) j. start + step * j) ts idx))\<rparr>))"

definition get_bounding_box :: "roi \<Rightarrow> pyslice list" where
  \<comment> \<open>Modelled from the spec: \<^verbatim>\<open>Roi.get_bounding_box\<close> is not among the source
      files; the sub-array addressed by a ROI is \<open>begin : end\<close> in every dimension.\<close>
  "get_bounding_box r = map2 (\<lambda>b e. Slice (Some b) (Some e) None) (get_begin r) (get_end r)"

section \<open>Volumes and batches\<close>

text \<open>
  Modelled from the spec: \<^verbatim>\<open>Volume\<close> (\<^verbatim>\<open>gunpowder/volume.py\<close>) is not among
  the source files. A volume is an array with the ROI its data spans and its resolution,
  a coordinate; \<^verbatim>\<open>Volume(data, roi, resolution)\<close> builds one. A batch maps a volume
  type to its volume (\<^verbatim>\<open>batch.volumes\<close>).
\<close>

record 'a volume =
  data :: "'a ndarray"
  roi :: roi
  resolution :: coordinate

type_synonym 'a batch = "volume_type \<rightharpoonup> 'a volume"

definition volume_invariant :: "'a volume \<Rightarrow> bool" where
  \<comment> \<open>The data model's invariant of a volume: \<open>data.shape == roi.shape\<close>.\<close>
  "volume_invariant v = (ashape (data v) = shape (roi v) \<and> roi_invariant (roi v))"

section \<open>process\<close>

text \<open>
  The body of the first loop of \<^verbatim>\<open>process\<close> (lines 70 to 100) for one entry.
  The factor is a tuple (one stride per entry) or a number (one stride per dimension of
  the input ROI).
\<close>

definition stride_slices :: "factor \<Rightarrow> roi \<Rightarrow> pyslice list" where
  "stride_slices f input_roi =
     (case f of
        PerAxis ks \<Rightarrow> map (\<lambda>k. Slice None None (Some k)) ks
      | Uniform k \<Rightarrow> replicate (dims input_roi) (Slice None None (Some k)))"

definition downsample_pair ::
  "volume_type \<Rightarrow> factor \<Rightarrow> volume_type \<Rightarrow> request \<Rightarrow> 'a batch \<Rightarrow> error + 'a batch" where
  "downsample_pair input_volume f output_volume req b =
     (case req output_volume of
        None \<Rightarrow> Inr b
      | Some request_roi \<Rightarrow>
          ebind (scale_roi request_roi f) (\<lambda>scaled_roi.
          ebind (lookup b input_volume) (\<lambda>v.
          let input_roi = roi v in
          if \<not> contains input_roi scaled_roi then Inl ContainmentViolation
          else
            ebind (roi_sub scaled_roi (get_begin input_roi)) (\<lambda>window.
            ebind (np_getitem (data v) (get_bounding_box window)) (\<lambda>cropped.
            ebind (np_getitem cropped (stride_slices f input_roi)) (\<lambda>strided.
            if ashape strided \<noteq> get_shape request_roi then Inl ShapeMismatch
            else
              ebind (coord_mul (resolution v) f) (\<lambda>res.
              Inr (b(output_volume \<mapsto>
                     \<lparr>data = strided, roi = request_roi, resolution = res\<rparr>)))))))))"

fun downsample_pass :: "config \<Rightarrow> request \<Rightarrow> 'a batch \<Rightarrow> error + 'a batch" where
  "downsample_pass [] req b = Inr b"
| "downsample_pass ((input_volume, f, output_volume) # cfg) req b =
     ebind (downsample_pair input_volume f output_volume req b) (downsample_pass cfg req)"

text \<open>
  The body of the second loop of \<^verbatim>\<open>process\<close> (lines 105 to 119), which restores
  the requested ROI of an input volume, and the loop.
\<close>

definition restore_pair :: "volume_type \<Rightarrow> request \<Rightarrow> 'a batch \<Rightarrow> error + 'a batch" where
  "restore_pair input_volume req b =
     (case b input_volume of
        None \<Rightarrow> Inr b
      | Some v \<Rightarrow>
          (let input_roi = roi v in
           ebind (lookup req input_volume) (\<lambda>request_roi.
           if input_roi \<noteq> request_roi then
             (if \<not> contains input_roi request_roi then Inl ContainmentViolation
              else
                ebind (roi_sub request_roi (get_begin input_roi)) (\<lambda>window.
                ebind (np_getitem (data v) (get_bounding_box window)) (\<lambda>cropped.
                Inr (b(input_volume \<mapsto> v\<lparr>data := cropped, roi := request_roi\<rparr>)))))
           else Inr b)))"

fun restore_pass :: "config \<Rightarrow> request \<Rightarrow> 'a batch \<Rightarrow> error + 'a batch" where
  "restore_pass [] req b = Inr b"
| "restore_pass ((input_volume, f, output_volume) # cfg) req b =
     ebind (restore_pair input_volume req b) (restore_pass cfg req)"

definition process :: "config \<Rightarrow> 'a batch \<Rightarrow> request \<Rightarrow> error + 'a batch" where
  "process cfg b req = ebind (downsample_pass cfg req b) (restore_pass cfg req)"

section \<open>Auxiliary notions for the statements\<close>

definition factor_fits :: "factor \<Rightarrow> nat \<Rightarrow> bool" where
  \<comment> \<open>A per-dimension factor has one entry for each dimension.\<close>
  "factor_fits f n = (case f of Uniform k \<Rightarrow> True | PerAxis ks \<Rightarrow> length ks = n)"

definition nonzero_step :: "pyslice \<Rightarrow> bool" where
  "nonzero_step s = (case s of Slice a b c \<Rightarrow> c \<noteq> Some 0)"

text \<open>
  The scenario of the spec: input volume type \<open>A\<close>, factor 2, output volume type \<open>B\<close>,
  and a request for \<open>B\<close> at offset \<open>(0,0,0)\<close> with shape \<open>(4,4,4)\<close>.
\<close>

definition scenario_config :: config where
  "scenario_config = [(''A'', Uniform 2, ''B'')]"

definition scenario_roi :: roi where
  "scenario_roi = \<lparr>offset = [0, 0, 0], shape = [4, 4, 4]\<rparr>"

definition scenario_volume :: "int volume" where
  \<comment> \<open>An \<open>8 \<times> 8 \<times> 8\<close> array over \<open>(-2,-2,-2)\<close>; the element at an index is the sum of the index.\<close>
  "scenario_volume =
     \<lparr>data = \<lparr>ashape = [8, 8, 8], aget = sum_list\<rparr>,
      roi = \<lparr>offset = [- 2, - 2, - 2], shape = [8, 8, 8]\<rparr>,
      resolution = [4, 4, 4]\<rparr>"

text \<open>
  A configuration whose second entry consumes the output of its first.
\<close>

definition chained_config :: config where
  "chained_config = [(''A'', Uniform 2, ''B''), (''B'', Uniform 2, ''C'')]"

text \<open>
  Two volumes for \<open>A\<close> that break what \<^verbatim>\<open>process\<close> relies on: one whose ROI starts at
  \<open>(0,0,0)\<close> and so does not cover the scaled ROI of the scenario, and one whose array
  is shorter than its ROI says.
\<close>

definition short_volume :: "int volume" where
  "short_volume =
     \<lparr>data = \<lparr>ashape = [8, 8, 8], aget = sum_list\<rparr>,
      roi = \<lparr>offset = [0, 0, 0], shape = [8, 8, 8]\<rparr>,
      resolution = [4, 4, 4]\<rparr>"

definition truncated_volume :: "int volume" where
  "truncated_volume =
     \<lparr>data = \<lparr>ashape = [6, 8, 8], aget = sum_list\<rparr>,
      roi = \<lparr>offset = [- 2, - 2, - 2], shape = [8, 8, 8]\<rparr>,
      resolution = [4, 4, 4]\<rparr>"

text \<open>
  Notions for the statement about the strided data: a factor all of whose entries are
  positive, the stride of every one of \<open>n\<close> dimensions, and an index that lies inside a
  shape.
\<close>

definition factor_positive :: "factor \<Rightarrow> bool" where
  "factor_positive f = (case f of Uniform k \<Rightarrow> 0 < k | PerAxis ks \<Rightarrow> list_all (\<lambda>k. 0 < k) ks)"

fun strides :: "factor \<Rightarrow> nat \<Rightarrow> int list" where
  "strides (Uniform k) n = replicate n k"
| "strides (PerAxis ks) n = ks"

definition inside :: "int list \<Rightarrow> int list \<Rightarrow> bool" where
  "inside j s = list_all2 (\<lambda>x n. 0 \<le> x \<and> x < n) j s"

text \<open>
  The chained configuration with its entries in the other order.
\<close>

definition reversed_chain_config :: config where
  "reversed_chain_config = [(''B'', Uniform 2, ''C''), (''A'', Uniform 2, ''B'')]"


section \<open>Properties of the ROI algebra\<close>

lemma ebind_Inr [simp]: "ebind (Inr x) k = k x"
  by (simp add: ebind_def)

lemma ebind_Inl [simp]: "ebind (Inl e) k = Inl e"
  by (simp add: ebind_def)

lemma ebind_eq_Inr:
  "ebind m k = Inr y \<longleftrightarrow> (\<exists>x. m = Inr x \<and> k x = Inr y)"
  by (cases m) simp_all

lemma ebind_assoc: "ebind (ebind m k) h = ebind m (\<lambda>x. ebind (k x) h)"
  by (cases m) simp_all

lemma length_coord_mul:
  "coord_mul a f = Inr c \<Longrightarrow> length c = length a"
  by (cases f) (auto simp: coord_zip_def split: if_splits)

lemma get_center_shift:
  assumes "length c = length (offset r)" "length (offset r) = length (shape r)"
  shows "get_center (r\<lparr>offset := map2 (-) (offset r) c\<rparr>) = map2 (-) (get_center r) c"
proof (rule nth_equalityI)
  show "length (get_center (r\<lparr>offset := map2 (-) (offset r) c\<rparr>)) = length (map2 (-) (get_center r) c)"
    using assms by (simp add: get_center_def)
next
  fix n assume "n < length (get_center (r\<lparr>offset := map2 (-) (offset r) c\<rparr>))"
  then have "n < length (offset r)" "n < length (shape r)" "n < length c"
    using assms by (simp_all add: get_center_def)
  then show "get_center (r\<lparr>offset := map2 (-) (offset r) c\<rparr>) ! n = map2 (-) (get_center r) c ! n"
    by (simp add: get_center_def)
qed

lemma map2_sub_sub:
  assumes "length (a :: int list) = length b"
  shows "map2 (-) a (map2 (-) a b) = b"
proof (rule nth_equalityI)
  show "length (map2 (-) a (map2 (-) a b)) = length b"
    using assms by simp
next
  fix n assume "n < length (map2 (-) a (map2 (-) a b))"
  then have "n < length a" "n < length b" using assms by simp_all
  then show "map2 (-) a (map2 (-) a b) ! n = b ! n" by simp
qed

lemma coord_mul_fits:
  "factor_fits f (length a) \<Longrightarrow> \<exists>c. coord_mul a f = Inr c \<and> length c = length a"
  by (cases f) (auto simp: factor_fits_def coord_zip_def)

text \<open>
  C4. For every ROI (offset and shape of the same dimensionality) and every factor, a
  single integer or one integer per dimension of the ROI, the center-preserving scale
  succeeds and the center \<open>offset + shape div 2\<close> of its result is the center of the
  ROI it was given.
\<close>

theorem scale_roi_preserves_center:
  assumes "length (offset r) = length (shape r)" and "factor_fits f (dims r)"
  shows "\<exists>r'. scale_roi r f = Inr r' \<and> get_center r' = get_center r"
proof -
  from assms obtain off where off: "coord_mul (offset r) f = Inr off" "length off = length (offset r)"
    using coord_mul_fits [of f "offset r"] by (auto simp: dims_def)
  from assms obtain shp where shp: "coord_mul (shape r) f = Inr shp" "length shp = length (shape r)"
    using coord_mul_fits [of f "shape r"] by (auto simp: dims_def)
  define s where "s = \<lparr>offset = off, shape = shp\<rparr>"
  have mul: "roi_mul r f = Inr s"
    by (simp add: roi_mul_def off shp s_def)
  have len_s: "length (offset s) = length (shape s)" "length (offset s) = length (offset r)"
    using off shp assms by (simp_all add: s_def)
  have len_c: "length (get_center s) = length (get_center r)" "length (get_center s) = length (offset s)"
    using len_s assms by (simp_all add: get_center_def)
  define d where "d = map2 (-) (get_center s) (get_center r)"
  have sub: "coord_sub (get_center s) (get_center r) = Inr d"
    using len_c by (simp add: coord_sub_def coord_zip_def d_def)
  have len_d: "length d = length (offset s)"
    using len_c by (simp add: d_def)
  have sub2: "coord_sub (offset s) d = Inr (map2 (-) (offset s) d)"
    using len_d by (simp add: coord_sub_def coord_zip_def)
  have res: "scale_roi r f = Inr (s\<lparr>offset := map2 (-) (offset s) d\<rparr>)"
    by (simp add: scale_roi_def Let_def mul sub roi_sub_def sub2)
  have "get_center (s\<lparr>offset := map2 (-) (offset s) d\<rparr>) = map2 (-) (get_center s) d"
    using len_d len_s by (intro get_center_shift) simp_all
  also have "\<dots> = get_center r"
    unfolding d_def using len_c by (intro map2_sub_sub) simp
  finally show ?thesis using res by blast
qed

theorem scale_roi_preserves_center_witness:
  "scale_roi \<lparr>offset = [1, -3], shape = [5, 4]\<rparr> (PerAxis [3, 2])
     = Inr \<lparr>offset = [-4, -5], shape = [15, 8]\<rparr>
   \<and> get_center \<lparr>offset = [-4, -5], shape = [15, 8]\<rparr>
     = get_center \<lparr>offset = [1, -3], shape = [5, 4]\<rparr>"
proof -
  have e: "scale_roi \<lparr>offset = [1, -3], shape = [5, 4]\<rparr> (PerAxis [3, 2])
     = Inr \<lparr>offset = [-4, -5], shape = [15, 8]\<rparr>"
    by (simp add: scale_roi_def roi_mul_def roi_sub_def coord_sub_def coord_zip_def
        get_center_def)
  have "\<exists>r'. scale_roi \<lparr>offset = [1, -3], shape = [5, 4]\<rparr> (PerAxis [3, 2]) = Inr r'
      \<and> get_center r' = get_center \<lparr>offset = [1, -3], shape = [5, 4]\<rparr>"
    by (rule scale_roi_preserves_center) (simp_all add: factor_fits_def dims_def)
  with e show ?thesis by simp
qed

lemmas roi_defs = scale_roi_def roi_mul_def roi_sub_def coord_sub_def coord_zip_def
  get_center_def get_begin_def get_end_def get_shape_def dims_def contains_def roi_empty_def
  roi_union_def

lemma slice_indices_total:
  "nonzero_step s \<Longrightarrow> \<exists>t. slice_indices n s = Inr t"
  by (cases s) (auto simp: slice_indices_def nonzero_step_def Let_def split: option.splits)

lemma slice_dims_total:
  "length ss \<le> length ns \<Longrightarrow> list_all nonzero_step ss
     \<Longrightarrow> \<exists>ts. slice_dims ns ss = Inr ts"
proof (induction ns ss rule: slice_dims.induct)
  case (1 ns)
  then show ?case by simp
next
  case (2 s ss)
  then show ?case by simp
next
  case (3 n ns s ss)
  then obtain t where t: "slice_indices n s = Inr t"
    using slice_indices_total [of s n] by auto
  from 3 obtain ts where "slice_dims ns ss = Inr ts" by auto
  with t show ?case by simp
qed

lemma length_slice_dims:
  "slice_dims ns ss = Inr ts \<Longrightarrow> length ts = length ns"
  by (induction ns ss arbitrary: ts rule: slice_dims.induct)
     (auto simp: ebind_eq_Inr)

lemma bounding_box_steps: "list_all nonzero_step (get_bounding_box w)"
  by (auto simp: get_bounding_box_def list_all_iff nonzero_step_def in_set_zip)

lemma np_getitem_bounding_box_total:
  "length (get_bounding_box w) \<le> length (ashape arr)
     \<Longrightarrow> \<exists>arr'. np_getitem arr (get_bounding_box w) = Inr arr'"
  using slice_dims_total [OF _ bounding_box_steps, of w "ashape arr"]
  by (auto simp: np_getitem_def)

lemma slice_window:
  "0 \<le> lo \<Longrightarrow> 0 \<le> len \<Longrightarrow> lo + len \<le> n
     \<Longrightarrow> slice_indices n (Slice (Some lo) (Some (lo + len)) None) = Inr (lo, 1, len)"
  by (auto simp: slice_indices_def Let_def)

lemma slice_stride:
  "0 < k \<Longrightarrow> 0 \<le> n
     \<Longrightarrow> slice_indices n (Slice None None (Some k)) =
           Inr (0, k, if 0 < n then (n - 1) div k + 1 else 0)"
  by (auto simp: slice_indices_def Let_def)

lemma scenario_scale:
  "scale_roi scenario_roi (Uniform 2) = Inr \<lparr>offset = [- 2, - 2, - 2], shape = [8, 8, 8]\<rparr>"
  by (simp add: scenario_roi_def roi_defs)

lemma scenario_prepare:
  "prepare scenario_config [''B'' \<mapsto> scenario_roi]
     = Inr [''A'' \<mapsto> \<lparr>offset = [- 2, - 2, - 2], shape = [8, 8, 8]\<rparr>]"
  by (simp add: scenario_config_def prepare_pair_def scenario_scale)

text \<open>
  C1, as stated, fails: for the configuration \<open>{A: (2, B)}\<close> and the request
  \<open>{B: ROI(offset=(0,0,0), shape=(4,4,4))}\<close>, \<^verbatim>\<open>prepare\<close> does not leave the request
  \<open>{A: ROI(offset=(-1,-1,-1), shape=(8,8,8))}\<close>; the offset it computes is \<open>(-2,-2,-2)\<close>,
  which keeps the center at \<open>(2,2,2)\<close>.
\<close>

theorem scenario_prepare_counterexample:
  "prepare scenario_config [''B'' \<mapsto> scenario_roi]
     \<noteq> Inr [''A'' \<mapsto> \<lparr>offset = [- 1, - 1, - 1], shape = [8, 8, 8]\<rparr>]"
proof
  assume "prepare scenario_config [''B'' \<mapsto> scenario_roi]
     = Inr [''A'' \<mapsto> \<lparr>offset = [- 1, - 1, - 1], shape = [8, 8, 8]\<rparr>]"
  then have "[''A'' \<mapsto> \<lparr>offset = [- 2, - 2, - 2], shape = [8, 8, 8 :: int]\<rparr>]
     = [''A'' \<mapsto> \<lparr>offset = [- 1, - 1, - 1], shape = [8, 8, 8 :: int]\<rparr>]"
    by (simp add: scenario_prepare)
  then have "\<lparr>offset = [- 2, - 2, - 2], shape = [8, 8, 8 :: int]\<rparr>
     = \<lparr>offset = [- 1, - 1, - 1], shape = [8, 8, 8 :: int]\<rparr>"
    by (rule map_upd_eqD1)
  then show False by simp
qed

lemma restore_pair_other:
  "restore_pair i req b = Inr b' \<Longrightarrow> k \<noteq> i \<Longrightarrow> b' k = b k"
  by (auto simp: restore_pair_def Let_def ebind_eq_Inr lookup_def
      split: option.splits if_splits)

lemma length_bounding_box: "length (get_bounding_box w) \<le> length (offset w)"
  by (simp add: get_bounding_box_def get_begin_def)

lemma restore_pair_succeeds:
  assumes "b i = Some v" "req i = Some r" "contains (roi v) r"
    and "length (offset r) = length (offset (roi v))"
    and "length (offset r) \<le> length (ashape (data v))"
  shows "\<exists>b'. restore_pair i req b = Inr b'"
proof -
  obtain w where w: "roi_sub r (get_begin (roi v)) = Inr w" "length (offset w) = length (offset r)"
    using assms(4) by (simp add: roi_sub_def coord_sub_def coord_zip_def get_begin_def)
  have "length (get_bounding_box w) \<le> length (ashape (data v))"
    using length_bounding_box [of w] w(2) assms(5) by simp
  then obtain c where "np_getitem (data v) (get_bounding_box w) = Inr c"
    using np_getitem_bounding_box_total by blast
  with w assms show ?thesis
    by (simp add: restore_pair_def lookup_def Let_def)
qed

lemma list3:
  assumes "length xs = 3"
  obtains a b c where "xs = [a, b, c]"
proof -
  from assms obtain a ys where 1: "xs = a # ys" "length ys = 2"
    by (cases xs) auto
  then obtain b zs where 2: "ys = b # zs" "length zs = 1"
    by (cases ys) auto
  then obtain c where "zs = [c]"
    by (cases zs) auto
  with 1 2 that show thesis by simp
qed

text \<open>
  C1, amended. For the configuration \<open>{A: (2, B)}\<close> and the request
  \<open>{B: ROI(offset=(0,0,0), shape=(4,4,4))}\<close>, \<^verbatim>\<open>prepare\<close> leaves the request equal to
  \<open>{A: ROI(offset=(-2,-2,-2), shape=(8,8,8))}\<close>, with \<open>B\<close> removed. Given a batch whose
  \<open>A\<close> volume (its data shaped as its ROI) covers at least that ROI, and a request that
  holds, besides the entry for \<open>B\<close>, a three-dimensional entry for \<open>A\<close> inside the
  ROI of the \<open>A\<close> volume, \<^verbatim>\<open>process\<close> returns a batch whose \<open>B\<close> volume has the
  ROI shape \<open>(4,4,4)\<close> and the resolution of the \<open>A\<close> volume times 2.
\<close>

theorem scenario_process:
  assumes bA: "b ''A'' = Some v"
    and inv: "volume_invariant v"
    and cov: "contains (roi v) \<lparr>offset = [- 2, - 2, - 2], shape = [8, 8, 8]\<rparr>"
    and ra: "contains (roi v) ra" "length (offset ra) = 3"
  shows "prepare scenario_config [''B'' \<mapsto> scenario_roi]
           = Inr [''A'' \<mapsto> \<lparr>offset = [- 2, - 2, - 2], shape = [8, 8, 8]\<rparr>]
       \<and> (\<exists>b' vb. process scenario_config b [''B'' \<mapsto> scenario_roi, ''A'' \<mapsto> ra] = Inr b'
             \<and> b' ''B'' = Some vb \<and> get_shape (roi vb) = [4, 4, 4]
             \<and> resolution vb = map (\<lambda>x. x * 2) (resolution v))"
proof -
  let ?req = "[''B'' \<mapsto> scenario_roi, ''A'' \<mapsto> ra]"
  from cov have b1: "list_all2 (\<le>) (offset (roi v)) [- 2, - 2, - 2]"
    and e1: "list_all2 (\<le>) [6, 6, 6] (map2 (+) (offset (roi v)) (shape (roi v)))"
    by (simp_all add: contains_def roi_empty_def get_begin_def get_end_def)
  from b1 have "length (offset (roi v)) = 3"
    by (auto dest: list_all2_lengthD)
  then obtain a1 a2 a3 where off: "offset (roi v) = [a1, a2, a3]"
    by (rule list3)
  from inv off have "length (shape (roi v)) = 3"
    by (simp add: volume_invariant_def roi_invariant_def)
  then obtain s1 s2 s3 where shp: "shape (roi v) = [s1, s2, s3]"
    by (rule list3)
  from inv shp have dshape: "ashape (data v) = [s1, s2, s3]"
    by (simp add: volume_invariant_def)
  from b1 e1 off shp have bounds:
    "a1 \<le> - 2" "a2 \<le> - 2" "a3 \<le> - 2" "6 \<le> a1 + s1" "6 \<le> a2 + s2" "6 \<le> a3 + s3"
    by simp_all
  have w: "roi_sub \<lparr>offset = [- 2, - 2, - 2], shape = [8, 8, 8]\<rparr> (get_begin (roi v))
      = Inr \<lparr>offset = [- 2 - a1, - 2 - a2, - 2 - a3], shape = [8, 8, 8]\<rparr>"
    by (simp add: roi_sub_def coord_sub_def coord_zip_def get_begin_def off)
  have sl: "slice_indices s1 (Slice (Some (- 2 - a1)) (Some (6 - a1)) None) = Inr (- 2 - a1, 1, 8)"
    "slice_indices s2 (Slice (Some (- 2 - a2)) (Some (6 - a2)) None) = Inr (- 2 - a2, 1, 8)"
    "slice_indices s3 (Slice (Some (- 2 - a3)) (Some (6 - a3)) None) = Inr (- 2 - a3, 1, 8)"
    using bounds slice_window [of "- 2 - a1" 8 s1] slice_window [of "- 2 - a2" 8 s2]
      slice_window [of "- 2 - a3" 8 s3]
    by simp_all
  obtain c where c: "np_getitem (data v)
        (get_bounding_box \<lparr>offset = [- 2 - a1, - 2 - a2, - 2 - a3], shape = [8, 8, 8]\<rparr>) = Inr c"
      "ashape c = [8, 8, 8]"
    using sl by (simp add: np_getitem_def get_bounding_box_def get_begin_def get_end_def dshape)
  have st: "slice_indices 8 (Slice None None (Some 2)) = Inr (0, 2, 4)"
    by (simp add: slice_stride)
  obtain d where d: "np_getitem c (stride_slices (Uniform 2) (roi v)) = Inr d" "ashape d = [4, 4, 4]"
    using st by (simp add: np_getitem_def stride_slices_def dims_def off c(2))
  define vb where "vb = \<lparr>data = d, roi = scenario_roi, resolution = map (\<lambda>x. x * 2) (resolution v)\<rparr>"
  have shp_req: "get_shape scenario_roi = [4, 4, 4]"
    by (simp add: get_shape_def scenario_roi_def)
  have p1: "downsample_pair ''A'' (Uniform 2) ''B'' ?req b = Inr (b(''B'' \<mapsto> vb))"
    using bA cov w c d
    by (simp add: downsample_pair_def scenario_scale lookup_def Let_def shp_req vb_def)
  have "(b(''B'' \<mapsto> vb)) ''A'' = Some v" using bA by simp
  moreover have "?req ''A'' = Some ra" by simp
  moreover have "length (offset ra) = length (offset (roi v))" using ra off by simp
  moreover have "length (offset ra) \<le> length (ashape (data v))" using ra dshape by simp
  ultimately obtain b' where b': "restore_pair ''A'' ?req (b(''B'' \<mapsto> vb)) = Inr b'"
    using restore_pair_succeeds [of "b(''B'' \<mapsto> vb)" "''A''" v ?req ra] ra(1) by blast
  then have "b' ''B'' = Some vb"
    using restore_pair_other [of "''A''" ?req "b(''B'' \<mapsto> vb)" b' "''B''"] by simp
  moreover have "process scenario_config b ?req = Inr b'"
    using p1 b' by (simp add: process_def scenario_config_def)
  ultimately show ?thesis
    using scenario_prepare by (auto simp: vb_def get_shape_def scenario_roi_def)
qed

theorem scenario_process_witness:
  "prepare scenario_config [''B'' \<mapsto> scenario_roi]
           = Inr [''A'' \<mapsto> \<lparr>offset = [- 2, - 2, - 2], shape = [8, 8, 8]\<rparr>]
       \<and> (\<exists>b' vb. process scenario_config [''A'' \<mapsto> scenario_volume]
                 [''B'' \<mapsto> scenario_roi, ''A'' \<mapsto> \<lparr>offset = [0, 0, 0], shape = [2, 2, 2]\<rparr>] = Inr b'
             \<and> b' ''B'' = Some vb \<and> get_shape (roi vb) = [4, 4, 4]
             \<and> resolution vb = [8, 8, 8])"
  using scenario_process [of "[''A'' \<mapsto> scenario_volume]" scenario_volume
      "\<lparr>offset = [0, 0, 0], shape = [2, 2, 2]\<rparr>"]
  by (simp add: scenario_volume_def volume_invariant_def roi_invariant_def contains_def
      roi_empty_def get_begin_def get_end_def)

lemma prepare_append:
  "prepare (xs @ ys) req = ebind (prepare xs req) (prepare ys)"
proof (induction xs arbitrary: req)
  case Nil
  then show ?case by simp
next
  case (Cons p xs)
  obtain i f out where p: "p = (i, f, out)" by (cases p)
  show ?case
    by (cases "prepare_pair i f out req") (simp_all add: p Cons.IH)
qed

lemma prepare_pair_keeps:
  "prepare_pair i f out req = Inr req' \<Longrightarrow> k \<noteq> i \<Longrightarrow> k \<noteq> out \<Longrightarrow> req' k = req k"
  by (auto simp: prepare_pair_def ebind_eq_Inr split: option.splits)

lemma prepare_pair_removes:
  "prepare_pair i f out req = Inr req' \<Longrightarrow> req' out = None"
  by (auto simp: prepare_pair_def ebind_eq_Inr split: option.splits)

lemma prepare_pair_adds_input_only:
  "prepare_pair i f out req = Inr req' \<Longrightarrow> k \<noteq> i \<Longrightarrow> req k = None \<Longrightarrow> req' k = None"
  by (auto simp: prepare_pair_def ebind_eq_Inr split: option.splits)

lemma prepare_adds_inputs_only:
  "prepare cfg req = Inr req' \<Longrightarrow> k \<notin> set (inputs cfg) \<Longrightarrow> req k = None \<Longrightarrow> req' k = None"
proof (induction cfg arbitrary: req)
  case Nil
  then show ?case by simp
next
  case (Cons p cfg)
  obtain i f out where p: "p = (i, f, out)" by (cases p)
  from Cons.prems(1) obtain r where r: "prepare_pair i f out req = Inr r" "prepare cfg r = Inr req'"
    by (auto simp: p ebind_eq_Inr)
  from Cons.prems have "k \<noteq> i" "k \<notin> set (inputs cfg)" by (simp_all add: p inputs_def)
  with r Cons.prems(3) Cons.IH [of r] show ?case
    by (auto dest: prepare_pair_adds_input_only)
qed

lemma prepare_removes_outputs:
  "prepare cfg req = Inr req' \<Longrightarrow> set (inputs cfg) \<inter> set (outputs cfg) = {}
     \<Longrightarrow> k \<in> set (outputs cfg) \<Longrightarrow> req' k = None"
proof (induction cfg arbitrary: req)
  case Nil
  then show ?case by (simp add: outputs_def)
next
  case (Cons p cfg)
  obtain i f out where p: "p = (i, f, out)" by (cases p)
  from Cons.prems(1) obtain r where r: "prepare_pair i f out req = Inr r" "prepare cfg r = Inr req'"
    by (auto simp: p ebind_eq_Inr)
  from Cons.prems(2) have disj: "set (inputs cfg) \<inter> set (outputs cfg) = {}"
    and out: "out \<notin> set (inputs cfg)"
    by (auto simp: p inputs_def outputs_def)
  show ?case
  proof (cases "k \<in> set (outputs cfg)")
    case True
    with Cons.IH [OF r(2) disj] show ?thesis by simp
  next
    case False
    with Cons.prems(3) have "k = out" by (simp add: p outputs_def)
    with r out show ?thesis
      using prepare_pair_removes [of i f out req r] prepare_adds_inputs_only [of cfg r req' out]
      by simp
  qed
qed

lemma prepare_no_outputs:
  "\<forall>k \<in> set (outputs cfg). req k = None \<Longrightarrow> prepare cfg req = Inr req"
proof (induction cfg)
  case Nil
  then show ?case by simp
next
  case (Cons p cfg)
  obtain i f out where p: "p = (i, f, out)" by (cases p)
  from Cons.prems have "req out = None" "\<forall>k \<in> set (outputs cfg). req k = None"
    by (simp_all add: p outputs_def)
  with Cons.IH show ?case by (simp add: p prepare_pair_def)
qed

lemma scenario_scale2:
  "scale_roi \<lparr>offset = [- 2, - 2, - 2], shape = [8, 8, 8]\<rparr> (Uniform 2)
     = Inr \<lparr>offset = [- 6, - 6, - 6], shape = [16, 16, 16]\<rparr>"
  by (simp add: roi_defs)

text \<open>
  C9, as stated, fails: for the configuration \<open>{A: (2, B), B: (2, C)}\<close> and the request
  \<open>{C: ROI(offset=(0,0,0), shape=(4,4,4))}\<close>, a first \<^verbatim>\<open>prepare\<close> leaves \<open>{B: \<dots>}\<close>;
  a second one on that request rewrites it to \<open>{A: \<dots>}\<close>.
\<close>

theorem prepare_twice_counterexample:
  "prepare chained_config [''C'' \<mapsto> scenario_roi]
     = Inr [''B'' \<mapsto> \<lparr>offset = [- 2, - 2, - 2], shape = [8, 8, 8]\<rparr>]
   \<and> prepare chained_config [''B'' \<mapsto> \<lparr>offset = [- 2, - 2, - 2], shape = [8, 8, 8]\<rparr>]
     \<noteq> Inr [''B'' \<mapsto> \<lparr>offset = [- 2, - 2, - 2], shape = [8, 8, 8]\<rparr>]"
proof
  show "prepare chained_config [''C'' \<mapsto> scenario_roi]
     = Inr [''B'' \<mapsto> \<lparr>offset = [- 2, - 2, - 2], shape = [8, 8, 8]\<rparr>]"
    by (simp add: chained_config_def prepare_pair_def scenario_scale)
next
  have second: "prepare chained_config [''B'' \<mapsto> \<lparr>offset = [- 2, - 2, - 2], shape = [8, 8, 8]\<rparr>]
     = Inr [''A'' \<mapsto> \<lparr>offset = [- 6, - 6, - 6], shape = [16, 16, 16]\<rparr>]"
    by (simp add: chained_config_def prepare_pair_def scenario_scale2)
  show "prepare chained_config [''B'' \<mapsto> \<lparr>offset = [- 2, - 2, - 2], shape = [8, 8, 8]\<rparr>]
     \<noteq> Inr [''B'' \<mapsto> \<lparr>offset = [- 2, - 2, - 2], shape = [8, 8, 8]\<rparr>]"
  proof
    assume "prepare chained_config [''B'' \<mapsto> \<lparr>offset = [- 2, - 2, - 2], shape = [8, 8, 8]\<rparr>]
      = Inr [''B'' \<mapsto> \<lparr>offset = [- 2, - 2, - 2], shape = [8, 8, 8]\<rparr>]"
    then have "[''A'' \<mapsto> \<lparr>offset = [- 6, - 6, - 6], shape = [16, 16, 16 :: int]\<rparr>]
      = [''B'' \<mapsto> \<lparr>offset = [- 2, - 2, - 2], shape = [8, 8, 8 :: int]\<rparr>]"
      by (simp add: second)
    then have "[''A'' \<mapsto> \<lparr>offset = [- 6, - 6, - 6], shape = [16, 16, 16 :: int]\<rparr>] ''B''
      = [''B'' \<mapsto> \<lparr>offset = [- 2, - 2, - 2], shape = [8, 8, 8 :: int]\<rparr>] ''B''"
      by (rule fun_cong)
    then show False by simp
  qed
qed

text \<open>
  C9, amended. For every configuration in which no output volume type is also an input
  volume type, and every request on which \<^verbatim>\<open>prepare\<close> returns, a second
  \<^verbatim>\<open>prepare\<close> on the request the first one left returns that request unchanged.
\<close>

theorem prepare_idempotent:
  assumes "set (inputs cfg) \<inter> set (outputs cfg) = {}"
    and "prepare cfg req = Inr req'"
  shows "prepare cfg req' = Inr req'"
proof -
  have "\<forall>k \<in> set (outputs cfg). req' k = None"
    using assms prepare_removes_outputs [of cfg req req'] by blast
  then show ?thesis by (rule prepare_no_outputs)
qed

theorem prepare_idempotent_witness:
  "prepare scenario_config [''B'' \<mapsto> scenario_roi]
     = Inr [''A'' \<mapsto> \<lparr>offset = [- 2, - 2, - 2], shape = [8, 8, 8]\<rparr>]
   \<and> prepare scenario_config [''A'' \<mapsto> \<lparr>offset = [- 2, - 2, - 2], shape = [8, 8, 8]\<rparr>]
     = Inr [''A'' \<mapsto> \<lparr>offset = [- 2, - 2, - 2], shape = [8, 8, 8]\<rparr>]"
  using prepare_idempotent [of scenario_config "[''B'' \<mapsto> scenario_roi]"
      "[''A'' \<mapsto> \<lparr>offset = [- 2, - 2, - 2], shape = [8, 8, 8]\<rparr>]"]
  by (simp add: scenario_prepare) (simp add: scenario_config_def inputs_def outputs_def)



lemma prepare_untouched:
  "prepare cfg req = Inr req' \<Longrightarrow> k \<notin> set (inputs cfg) \<Longrightarrow> k \<notin> set (outputs cfg)
     \<Longrightarrow> req' k = req k"
proof (induction cfg arbitrary: req)
  case Nil
  then show ?case by simp
next
  case (Cons p cfg)
  obtain i f out where p: "p = (i, f, out)" by (cases p)
  from Cons.prems(1) obtain r where r: "prepare_pair i f out req = Inr r" "prepare cfg r = Inr req'"
    by (auto simp: p ebind_eq_Inr)
  from Cons.prems have k: "k \<noteq> i" "k \<noteq> out" "k \<notin> set (inputs cfg)" "k \<notin> set (outputs cfg)"
    by (simp_all add: p inputs_def outputs_def)
  then have "req' k = r k" using Cons.IH [OF r(2)] by simp
  also have "r k = req k" using r(1) k(1,2) by (rule prepare_pair_keeps)
  finally show ?case .
qed

lemma downsample_pass_append:
  "downsample_pass (xs @ ys) req b = ebind (downsample_pass xs req b) (downsample_pass ys req)"
proof (induction xs arbitrary: b)
  case Nil
  then show ?case by simp
next
  case (Cons p xs)
  obtain i f out where p: "p = (i, f, out)" by (cases p)
  show ?case
    by (cases "downsample_pair i f out req b") (simp_all add: p Cons.IH)
qed

lemma restore_pass_append:
  "restore_pass (xs @ ys) req b = ebind (restore_pass xs req b) (restore_pass ys req)"
proof (induction xs arbitrary: b)
  case Nil
  then show ?case by simp
next
  case (Cons p xs)
  obtain i f out where p: "p = (i, f, out)" by (cases p)
  show ?case
    by (cases "restore_pair i req b") (simp_all add: p Cons.IH)
qed

lemma downsample_pair_result:
  "downsample_pair i f out req b = Inr b' \<Longrightarrow>
     b' = b \<or> (\<exists>vo. b' = b(out \<mapsto> vo))"
  by (auto simp: downsample_pair_def ebind_eq_Inr Let_def split: option.splits if_splits)

lemma downsample_pair_dom:
  "downsample_pair i f out req b = Inr b' \<Longrightarrow> b k \<noteq> None \<Longrightarrow> b' k \<noteq> None"
  by (auto dest!: downsample_pair_result)

lemma downsample_pass_dom:
  "downsample_pass cfg req b = Inr b' \<Longrightarrow> b k \<noteq> None \<Longrightarrow> b' k \<noteq> None"
proof (induction cfg arbitrary: b)
  case Nil
  then show ?case by simp
next
  case (Cons p cfg)
  obtain i f out where p: "p = (i, f, out)" by (cases p)
  from Cons.prems(1) obtain b1 where b1: "downsample_pair i f out req b = Inr b1"
    "downsample_pass cfg req b1 = Inr b'"
    by (auto simp: p ebind_eq_Inr)
  from b1(1) Cons.prems(2) have "b1 k \<noteq> None" by (rule downsample_pair_dom)
  with b1(2) show ?case by (rule Cons.IH)
qed

lemma restore_pair_dom:
  "restore_pair i req b = Inr b' \<Longrightarrow> b k \<noteq> None \<Longrightarrow> b' k \<noteq> None"
  by (auto simp: restore_pair_def Let_def ebind_eq_Inr split: option.splits if_splits)

lemma restore_pass_dom:
  "restore_pass cfg req b = Inr b' \<Longrightarrow> b k \<noteq> None \<Longrightarrow> b' k \<noteq> None"
proof (induction cfg arbitrary: b)
  case Nil
  then show ?case by simp
next
  case (Cons p cfg)
  obtain i f out where p: "p = (i, f, out)" by (cases p)
  from Cons.prems(1) obtain b1 where b1: "restore_pair i req b = Inr b1"
    "restore_pass cfg req b1 = Inr b'"
    by (auto simp: p ebind_eq_Inr)
  from b1(1) Cons.prems(2) have "b1 k \<noteq> None" by (rule restore_pair_dom)
  with b1(2) show ?case by (rule Cons.IH)
qed

lemma restore_pair_missing_key:
  "b i \<noteq> None \<Longrightarrow> req i = None \<Longrightarrow> restore_pair i req b = Inl (KeyError i)"
  by (auto simp: restore_pair_def lookup_def Let_def)

text \<open>
  C10. If a configured input volume type is present in the batch but is not a key of the
  request passed to \<^verbatim>\<open>process\<close>, then, once the first loop and the restore steps of
  the earlier pairs have gone through, \<^verbatim>\<open>process\<close> fails with a \<^verbatim>\<open>KeyError\<close> for
  that volume type in the restore pass: the pass guards on the presence of the input type
  in the batch, not in the request.
\<close>

theorem restore_missing_request_key:
  assumes first: "downsample_pass (pre @ (input_volume, f, output_volume) # post) req b = Inr b1"
    and earlier: "restore_pass pre req b1 = Inr b2"
    and present: "b input_volume = Some v"
    and absent: "req input_volume = None"
  shows "process (pre @ (input_volume, f, output_volume) # post) b req
           = Inl (KeyError input_volume)"
proof -
  from present have "b input_volume \<noteq> None" by simp
  with first have "b1 input_volume \<noteq> None" by (rule downsample_pass_dom)
  with earlier have "b2 input_volume \<noteq> None" by (rule restore_pass_dom)
  then have "restore_pair input_volume req b2 = Inl (KeyError input_volume)"
    using absent by (rule restore_pair_missing_key)
  then show ?thesis
    by (simp add: process_def first restore_pass_append earlier)
qed

text \<open>
  C7. If the ROI of the input volume in the batch does not contain the scaled ROI that
  \<^verbatim>\<open>process\<close> derives for a requested output, the step of that pair, and with it
  \<^verbatim>\<open>process\<close>, fails with \<open>ContainmentViolation\<close>; no batch with an output volume
  for the pair is produced. (\<open>pre\<close> are the pairs the first loop has gone through.)
\<close>

theorem process_containment_violation:
  assumes "downsample_pass pre req b = Inr b1"
    and "req output_volume = Some requested"
    and "scale_roi requested f = Inr scaled"
    and "b1 input_volume = Some v"
    and "\<not> contains (roi v) scaled"
  shows "downsample_pair input_volume f output_volume req b1 = Inl ContainmentViolation
       \<and> process (pre @ (input_volume, f, output_volume) # post) b req = Inl ContainmentViolation"
proof -
  have "downsample_pair input_volume f output_volume req b1 = Inl ContainmentViolation"
    using assms(2-5) by (simp add: downsample_pair_def lookup_def Let_def)
  then show ?thesis
    by (simp add: process_def downsample_pass_append assms(1))
qed

text \<open>
  C6. If the array obtained by cropping and strided subsampling has a shape other than
  the shape of the requested ROI, \<^verbatim>\<open>process\<close> fails with \<open>ShapeMismatch\<close>; when the
  shapes are equal, the step of the pair does not raise \<open>ShapeMismatch\<close>.
\<close>

theorem process_shape_mismatch:
  assumes "downsample_pass pre req b = Inr b1"
    and "req output_volume = Some requested"
    and "scale_roi requested f = Inr scaled"
    and "b1 input_volume = Some v"
    and "contains (roi v) scaled"
    and "roi_sub scaled (get_begin (roi v)) = Inr window"
    and "np_getitem (data v) (get_bounding_box window) = Inr cropped"
    and "np_getitem cropped (stride_slices f (roi v)) = Inr strided"
  shows "(ashape strided \<noteq> get_shape requested \<longrightarrow>
            process (pre @ (input_volume, f, output_volume) # post) b req = Inl ShapeMismatch)
       \<and> (ashape strided = get_shape requested \<longrightarrow>
            downsample_pair input_volume f output_volume req b1 \<noteq> Inl ShapeMismatch)"
proof -
  have step: "downsample_pair input_volume f output_volume req b1 =
      (if ashape strided \<noteq> get_shape requested then Inl ShapeMismatch
       else ebind (coord_mul (resolution v) f) (\<lambda>res.
         Inr (b1(output_volume \<mapsto> \<lparr>data = strided, roi = requested, resolution = res\<rparr>))))"
    using assms(2-8) by (simp add: downsample_pair_def lookup_def Let_def)
  have no_shape_error: "coord_mul (resolution v) f \<noteq> Inl ShapeMismatch"
    by (cases f) (simp_all add: coord_zip_def)
  show ?thesis
  proof (intro conjI impI)
    assume "ashape strided \<noteq> get_shape requested"
    then show "process (pre @ (input_volume, f, output_volume) # post) b req = Inl ShapeMismatch"
      by (simp add: process_def downsample_pass_append assms(1) step)
  next
    assume "ashape strided = get_shape requested"
    then show "downsample_pair input_volume f output_volume req b1 \<noteq> Inl ShapeMismatch"
      using no_shape_error by (cases "coord_mul (resolution v) f") (simp_all add: step)
  qed
qed

lemmas eval_defs = downsample_pair_def restore_pair_def lookup_def contains_def roi_empty_def
  get_begin_def get_end_def get_shape_def dims_def roi_sub_def coord_sub_def coord_zip_def
  np_getitem_def slice_indices_def get_bounding_box_def stride_slices_def Let_def

lemma scenario_first_pass:
  "\<exists>b1. downsample_pass scenario_config [''B'' \<mapsto> scenario_roi] [''A'' \<mapsto> scenario_volume] = Inr b1"
  by (simp add: scenario_config_def scenario_scale scenario_volume_def eval_defs)
     (simp add: scenario_roi_def)

theorem restore_missing_request_key_witness:
  "process scenario_config [''A'' \<mapsto> scenario_volume] [''B'' \<mapsto> scenario_roi]
     = Inl (KeyError ''A'')"
proof -
  obtain b1 where b1: "downsample_pass ([] @ (''A'', Uniform 2, ''B'') # [])
      [''B'' \<mapsto> scenario_roi] [''A'' \<mapsto> scenario_volume] = Inr b1"
    using scenario_first_pass by (auto simp: scenario_config_def)
  have "process ([] @ (''A'', Uniform 2, ''B'') # []) [''A'' \<mapsto> scenario_volume]
      [''B'' \<mapsto> scenario_roi] = Inl (KeyError ''A'')"
    by (rule restore_missing_request_key [OF b1, of b1 scenario_volume]) simp_all
  then show ?thesis by (simp add: scenario_config_def)
qed

lemma scenario_full_run:
  "\<exists>b'. process scenario_config [''A'' \<mapsto> scenario_volume]
      [''B'' \<mapsto> scenario_roi, ''A'' \<mapsto> \<lparr>offset = [0, 0, 0], shape = [2, 2, 2]\<rparr>] = Inr b'
     \<and> b' ''A'' \<noteq> None"
  by (simp add: process_def scenario_config_def scenario_scale scenario_volume_def eval_defs)
     (simp add: scenario_roi_def eval_defs)

theorem process_containment_violation_witness:
  "process scenario_config [''A'' \<mapsto> short_volume] [''B'' \<mapsto> scenario_roi]
     = Inl ContainmentViolation"
proof -
  have "downsample_pair ''A'' (Uniform 2) ''B'' [''B'' \<mapsto> scenario_roi] [''A'' \<mapsto> short_volume]
          = Inl ContainmentViolation
      \<and> process ([] @ (''A'', Uniform 2, ''B'') # []) [''A'' \<mapsto> short_volume]
          [''B'' \<mapsto> scenario_roi] = Inl ContainmentViolation"
    by (rule process_containment_violation
          [of "[]" _ _ _ _ scenario_roi _ "\<lparr>offset = [- 2, - 2, - 2], shape = [8, 8, 8]\<rparr>" _ short_volume])
       (simp_all add: scenario_scale, simp add: short_volume_def contains_def roi_empty_def
          get_begin_def get_end_def)
  then show ?thesis by (simp add: scenario_config_def)
qed

theorem process_shape_mismatch_witness:
  "process scenario_config [''A'' \<mapsto> truncated_volume] [''B'' \<mapsto> scenario_roi]
     = Inl ShapeMismatch
   \<and> downsample_pair ''A'' (Uniform 2) ''B'' [''B'' \<mapsto> scenario_roi] [''A'' \<mapsto> scenario_volume]
     \<noteq> Inl ShapeMismatch"
proof -
  let ?req = "[''B'' \<mapsto> scenario_roi]"
  let ?sc = "\<lparr>offset = [- 2, - 2, - 2], shape = [8, 8, 8]\<rparr>"
  let ?w = "\<lparr>offset = [0, 0, 0], shape = [8, 8, 8]\<rparr>"
  have w: "roi_sub ?sc (get_begin (roi truncated_volume)) = Inr ?w"
    "roi_sub ?sc (get_begin (roi scenario_volume)) = Inr ?w"
    by (simp_all add: truncated_volume_def scenario_volume_def roi_sub_def coord_sub_def
        coord_zip_def get_begin_def)
  obtain c where c: "np_getitem (data truncated_volume) (get_bounding_box ?w) = Inr c"
    and cs: "ashape c = [6, 8, 8]"
    by (simp add: truncated_volume_def eval_defs)
  obtain d where d: "np_getitem c (stride_slices (Uniform 2) (roi truncated_volume)) = Inr d"
    and ds: "ashape d = [3, 4, 4]"
    by (simp add: truncated_volume_def eval_defs cs)
  obtain c' where c': "np_getitem (data scenario_volume) (get_bounding_box ?w) = Inr c'"
    and cs': "ashape c' = [8, 8, 8]"
    by (simp add: scenario_volume_def eval_defs)
  obtain d' where d': "np_getitem c' (stride_slices (Uniform 2) (roi scenario_volume)) = Inr d'"
    and ds': "ashape d' = [4, 4, 4]"
    by (simp add: scenario_volume_def eval_defs cs')
  have cov: "contains (roi truncated_volume) ?sc" "contains (roi scenario_volume) ?sc"
    by (simp_all add: truncated_volume_def scenario_volume_def contains_def roi_empty_def
        get_begin_def get_end_def)
  have 1: "(ashape d \<noteq> get_shape scenario_roi \<longrightarrow>
            process ([] @ (''A'', Uniform 2, ''B'') # []) [''A'' \<mapsto> truncated_volume] ?req
              = Inl ShapeMismatch)
       \<and> (ashape d = get_shape scenario_roi \<longrightarrow>
            downsample_pair ''A'' (Uniform 2) ''B'' ?req [''A'' \<mapsto> truncated_volume]
              \<noteq> Inl ShapeMismatch)"
    by (rule process_shape_mismatch [OF _ _ scenario_scale _ cov(1) w(1) c d]) simp_all
  have 2: "(ashape d' \<noteq> get_shape scenario_roi \<longrightarrow>
            process ([] @ (''A'', Uniform 2, ''B'') # []) [''A'' \<mapsto> scenario_volume] ?req
              = Inl ShapeMismatch)
       \<and> (ashape d' = get_shape scenario_roi \<longrightarrow>
            downsample_pair ''A'' (Uniform 2) ''B'' ?req [''A'' \<mapsto> scenario_volume]
              \<noteq> Inl ShapeMismatch)"
    by (rule process_shape_mismatch [OF _ _ scenario_scale _ cov(2) w(2) c' d']) simp_all
  from 1 2 show ?thesis
    by (simp add: ds ds' get_shape_def scenario_roi_def scenario_config_def)
qed

lemma slice_dims_nth:
  "slice_dims ns ss = Inr ts \<Longrightarrow> d < length ss
     \<Longrightarrow> slice_indices (ns ! d) (ss ! d) = Inr (ts ! d)"
proof (induction ns arbitrary: ss ts d)
  case Nil
  then show ?case by (cases ss) simp_all
next
  case (Cons n ns)
  show ?case
  proof (cases ss)
    case Nil
    with Cons.prems show ?thesis by simp
  next
    case (Cons s ss')
    with Cons.prems(1) obtain t ts' where t: "slice_indices n s = Inr t"
      "slice_dims ns ss' = Inr ts'" "ts = t # ts'"
      by (auto simp: ebind_eq_Inr)
    show ?thesis
    proof (cases d)
      case 0
      with t Cons show ?thesis by simp
    next
      case (Suc d')
      with Cons.prems(2) Cons have "d' < length ss'" by simp
      with t(2) have "slice_indices (ns ! d') (ss' ! d') = Inr (ts' ! d')"
        by (rule Cons.IH)
      with Suc t(3) Cons show ?thesis by simp
    qed
  qed
qed

lemma window_stride_index:
  assumes "0 \<le> rel" "0 < k" "0 < S"
    and "slice_indices n (Slice (Some rel) (Some (rel + S)) None) = Inr (st1, step1, len1)"
    and "slice_indices len1 (Slice None None (Some k)) = Inr (st2, step2, len2)"
    and "0 < len2"
  shows "st1 = rel \<and> step1 = 1 \<and> st2 = 0 \<and> step2 = k"
proof -
  from assms(1,3,4) have 1: "st1 = min rel n" "step1 = 1"
    "len1 = (if min rel n < min (rel + S) n then min (rel + S) n - min rel n else 0)"
    by (auto simp: slice_indices_def Let_def)
  from assms(2,5) have 2: "st2 = 0" "step2 = k"
    "len2 = (if 0 < len1 then (len1 - 1) div k + 1 else 0)"
    by (auto simp: slice_indices_def Let_def)
  from 2(3) assms(6) have "0 < len1" by (auto split: if_splits)
  with 1(3) have "min rel n < min (rel + S) n" by (auto split: if_splits)
  then have "rel < n" by auto
  with 1 2 show ?thesis by simp
qed

lemma np_getitem_Inr:
  assumes "np_getitem arr ss = Inr res"
  obtains ts where "slice_dims (ashape arr) ss = Inr ts" "length ss \<le> length (ashape arr)"
    "ashape res = map (\<lambda>(start, step, len). len) ts"
    "aget res = (\<lambda>idx. aget arr (map2 (\<lambda>(start, step, len) j. start + step * j) ts idx))"
  using assms by (auto simp: np_getitem_def ebind_eq_Inr split: if_splits)

lemma bounding_box_nth:
  assumes "length (offset w) = n" "length (shape w) = n" "d < n"
  shows "get_bounding_box w ! d = Slice (Some (offset w ! d)) (Some (offset w ! d + shape w ! d)) None"
  using assms by (simp add: get_bounding_box_def get_begin_def get_end_def)

lemma length_bounding_box_eq:
  "length (offset w) = n \<Longrightarrow> length (shape w) = n \<Longrightarrow> length (get_bounding_box w) = n"
  by (simp add: get_bounding_box_def get_begin_def get_end_def)

lemma crop_stride_get:
  assumes crop: "np_getitem arr (get_bounding_box w) = Inr cropped"
    and stride: "np_getitem cropped (map (\<lambda>k. Slice None None (Some k)) ks) = Inr strided"
    and len: "length (offset w) = n" "length (shape w) = n" "length ks = n"
      "length (ashape strided) = n"
    and pos: "\<And>d. d < n \<Longrightarrow> 0 \<le> offset w ! d \<and> 0 < ks ! d \<and> 0 < shape w ! d"
    and j: "inside j (ashape strided)"
  shows "aget strided j = aget arr (map2 (+) (offset w) (map2 (*) ks j))"
proof -
  let ?g = "\<lambda>(start, step, len) j. start + step * (j :: int)"
  from crop obtain ts1 where ts1: "slice_dims (ashape arr) (get_bounding_box w) = Inr ts1"
    and c_shape: "ashape cropped = map (\<lambda>(start, step, len). len) ts1"
    and c_get: "aget cropped = (\<lambda>idx. aget arr (map2 ?g ts1 idx))"
    by (rule np_getitem_Inr)
  from stride obtain ts2 where
    ts2: "slice_dims (ashape cropped) (map (\<lambda>k. Slice None None (Some k)) ks) = Inr ts2"
    and s_shape: "ashape strided = map (\<lambda>(start, step, len). len) ts2"
    and s_get: "aget strided = (\<lambda>idx. aget cropped (map2 ?g ts2 idx))"
    by (rule np_getitem_Inr)
  have l2: "length ts2 = n" using s_shape len(4) by simp
  have "length ts2 = length (ashape cropped)" using ts2 by (rule length_slice_dims)
  then have l1: "length ts1 = n" using c_shape l2 by simp
  have "length ts1 = length (ashape arr)" using ts1 by (rule length_slice_dims)
  then have la: "length (ashape arr) = n" using l1 by simp
  have lj: "length j = n"
    using j len(4) by (auto simp: inside_def dest: list_all2_lengthD)
  have lb: "length (get_bounding_box w) = n"
    using len(1,2) by (rule length_bounding_box_eq)
  have "map2 ?g ts1 (map2 ?g ts2 j) = map2 (+) (offset w) (map2 (*) ks j)"
  proof (rule nth_equalityI)
    show "length (map2 ?g ts1 (map2 ?g ts2 j)) = length (map2 (+) (offset w) (map2 (*) ks j))"
      using l1 l2 lj len by simp
  next
    fix d assume "d < length (map2 ?g ts1 (map2 ?g ts2 j))"
    then have d: "d < n" using l1 l2 lj by simp
    obtain st1 step1 len1 where t1: "ts1 ! d = (st1, step1, len1)" by (cases "ts1 ! d")
    obtain st2 step2 len2 where t2: "ts2 ! d = (st2, step2, len2)" by (cases "ts2 ! d")
    have "slice_indices (ashape arr ! d) (get_bounding_box w ! d) = Inr (ts1 ! d)"
      using ts1 d lb by (intro slice_dims_nth) simp_all
    then have s1: "slice_indices (ashape arr ! d)
        (Slice (Some (offset w ! d)) (Some (offset w ! d + shape w ! d)) None) = Inr (st1, step1, len1)"
      using bounding_box_nth [OF len(1,2) d] t1 by simp
    have "ashape cropped ! d = len1"
      using c_shape t1 d l1 by simp
    moreover have "slice_indices (ashape cropped ! d) (map (\<lambda>k. Slice None None (Some k)) ks ! d)
        = Inr (ts2 ! d)"
      using ts2 d len(3) by (intro slice_dims_nth) simp_all
    ultimately have s2: "slice_indices len1 (Slice None None (Some (ks ! d))) = Inr (st2, step2, len2)"
      using t2 d len(3) by simp
    have "ashape strided ! d = len2"
      using s_shape t2 d l2 by simp
    moreover have "0 \<le> j ! d \<and> j ! d < ashape strided ! d"
      using j d lj by (auto simp: inside_def list_all2_conv_all_nth)
    ultimately have "0 < len2" by simp
    with pos [OF d] s1 s2 have "st1 = offset w ! d \<and> step1 = 1 \<and> st2 = 0 \<and> step2 = ks ! d"
      by (intro window_stride_index [of "offset w ! d" "ks ! d" "shape w ! d" "ashape arr ! d" st1 step1 len1
            st2 step2 len2]) simp_all
    then show "map2 ?g ts1 (map2 ?g ts2 j) ! d = map2 (+) (offset w) (map2 (*) ks j) ! d"
      using d l1 l2 lj len t1 t2 by simp
  qed
  then show ?thesis by (simp add: s_get c_get)
qed

lemma scale_roi_Inr:
  assumes "scale_roi r f = Inr s" and "length (offset r) = length (shape r)"
  shows "length (offset s) = length (shape r)" and "coord_mul (shape r) f = Inr (shape s)"
proof -
  from assms(1) obtain off shp shift where m: "coord_mul (offset r) f = Inr off"
    "coord_mul (shape r) f = Inr shp"
    and sh: "roi_sub \<lparr>offset = off, shape = shp\<rparr> shift = Inr s"
    by (auto simp: scale_roi_def roi_mul_def Let_def ebind_eq_Inr)
  from sh have s: "shape s = shp" "length (offset s) = length off"
    by (auto simp: roi_sub_def coord_sub_def coord_zip_def ebind_eq_Inr split: if_splits)
  from m(1) have "length off = length (offset r)" by (rule length_coord_mul)
  with s assms(2) show "length (offset s) = length (shape r)" by simp
  from m(2) s show "coord_mul (shape r) f = Inr (shape s)" by simp
qed

lemma coord_mul_strides:
  assumes "coord_mul a f = Inr c"
  shows "length (strides f (length a)) = length a"
    and "d < length a \<Longrightarrow> c ! d = a ! d * strides f (length a) ! d"
  using assms by (cases f; auto simp: coord_zip_def split: if_splits)+

lemma strides_positive:
  "factor_positive f \<Longrightarrow> d < length (strides f n) \<Longrightarrow> 0 < strides f n ! d"
  by (cases f) (auto simp: factor_positive_def list_all_length)

lemma stride_slices_strides:
  "stride_slices f r = map (\<lambda>k. Slice None None (Some k)) (strides f (dims r))"
  by (cases f) (simp_all add: stride_slices_def)

lemma downsample_pair_Inr:
  assumes "downsample_pair i f out req b = Inr b'" "req out = Some requested" "b i = Some v"
  obtains scaled window cropped strided res where
    "scale_roi requested f = Inr scaled" "contains (roi v) scaled"
    "roi_sub scaled (get_begin (roi v)) = Inr window"
    "np_getitem (data v) (get_bounding_box window) = Inr cropped"
    "np_getitem cropped (stride_slices f (roi v)) = Inr strided"
    "ashape strided = get_shape requested"
    "coord_mul (resolution v) f = Inr res"
    "b' = b(out \<mapsto> \<lparr>data = strided, roi = requested, resolution = res\<rparr>)"
  using assms
  by (auto simp: downsample_pair_def lookup_def Let_def ebind_eq_Inr split: if_splits)

lemma downsample_pair_other:
  "downsample_pair i f out req b = Inr b' \<Longrightarrow> k \<noteq> out \<Longrightarrow> b' k = b k"
  by (auto dest!: downsample_pair_result)

lemma downsample_pass_keeps:
  "downsample_pass cfg req b = Inr b' \<Longrightarrow> k \<notin> set (outputs cfg) \<Longrightarrow> b' k = b k"
proof (induction cfg arbitrary: b)
  case Nil
  then show ?case by simp
next
  case (Cons p cfg)
  obtain i f out where p: "p = (i, f, out)" by (cases p)
  from Cons.prems(1) obtain b1 where b1: "downsample_pair i f out req b = Inr b1"
    "downsample_pass cfg req b1 = Inr b'"
    by (auto simp: p ebind_eq_Inr)
  from Cons.prems(2) have k: "k \<noteq> out" "k \<notin> set (outputs cfg)"
    by (simp_all add: p outputs_def)
  from b1(2) k(2) have "b' k = b1 k" by (rule Cons.IH)
  also from b1(1) k(1) have "b1 k = b k" by (rule downsample_pair_other)
  finally show ?case .
qed

lemma restore_pair_same:
  "restore_pair i req b = Inr b' \<Longrightarrow> b k = Some vk \<Longrightarrow> req k = Some (roi vk)
     \<Longrightarrow> b' k = Some vk"
  by (auto simp: restore_pair_def lookup_def Let_def ebind_eq_Inr
      split: option.splits if_splits)

lemma restore_pass_keeps:
  "restore_pass cfg req b = Inr b' \<Longrightarrow> b k = Some vk \<Longrightarrow> req k = Some (roi vk)
     \<Longrightarrow> b' k = Some vk"
proof (induction cfg arbitrary: b)
  case Nil
  then show ?case by simp
next
  case (Cons p cfg)
  obtain i f out where p: "p = (i, f, out)" by (cases p)
  from Cons.prems(1) obtain b1 where b1: "restore_pair i req b = Inr b1"
    "restore_pass cfg req b1 = Inr b'"
    by (auto simp: p ebind_eq_Inr)
  from b1(1) Cons.prems(2,3) have "b1 k = Some vk" by (rule restore_pair_same)
  with b1(2) show ?case using Cons.prems(3) by (rule Cons.IH)
qed

text \<open>
  C5. For every configured pair whose output type is in the request (the outputs of the
  configuration distinct, the factor positive, the requested ROI with offset and shape of
  one dimensionality), when \<^verbatim>\<open>process\<close> returns: the batch holds under the output key
  a volume whose ROI is the requested ROI, whose resolution is the resolution of the input
  volume multiplied by the factor, and whose data has the shape of the requested ROI and at
  every index \<open>j\<close> inside it the element of the input volume's data at
  \<open>(scaled.offset - input_roi.offset) + factor * j\<close>, where \<open>scaled\<close> is the
  center-preserving scale of the requested ROI, derived again from the request: the crop
  to the scaled window followed by every \<open>factor[i]\<close>-th element along dimension \<open>i\<close>
  from offset 0 of the window. (\<open>pre\<close> are the pairs the first loop has gone through,
  \<open>v\<close> is the input volume as the pair finds it.)
\<close>

theorem process_downsamples:
  assumes valid: "distinct (outputs (pre @ (input_volume, f, output_volume) # post))"
    and positive: "factor_positive f"
    and first: "downsample_pass pre req b = Inr b1"
    and inp: "b1 input_volume = Some v"
    and reqd: "req output_volume = Some requested"
    and wf: "length (offset requested) = length (shape requested)"
    and ok: "process (pre @ (input_volume, f, output_volume) # post) b req = Inr b'"
  shows "\<exists>scaled vo. scale_roi requested f = Inr scaled
           \<and> b' output_volume = Some vo
           \<and> roi vo = requested
           \<and> coord_mul (resolution v) f = Inr (resolution vo)
           \<and> ashape (data vo) = shape requested
           \<and> (\<forall>j. inside j (shape requested) \<longrightarrow>
                 aget (data vo) j =
                   aget (data v)
                     (map2 (+) (map2 (-) (offset scaled) (offset (roi v)))
                        (map2 (*) (strides f (length j)) j)))"
proof -
  let ?n = "length (shape requested)"
  from ok first obtain b2 b3 where
    step: "downsample_pair input_volume f output_volume req b1 = Inr b2"
    and rest: "downsample_pass post req b2 = Inr b3"
    and restore: "restore_pass (pre @ (input_volume, f, output_volume) # post) req b3 = Inr b'"
    by (auto simp: process_def downsample_pass_append ebind_eq_Inr)
  from step reqd inp obtain scaled window cropped strided res where
    sc: "scale_roi requested f = Inr scaled" and cov: "contains (roi v) scaled"
    and win: "roi_sub scaled (get_begin (roi v)) = Inr window"
    and crop: "np_getitem (data v) (get_bounding_box window) = Inr cropped"
    and stride: "np_getitem cropped (stride_slices f (roi v)) = Inr strided"
    and shp: "ashape strided = get_shape requested"
    and res: "coord_mul (resolution v) f = Inr res"
    and b2: "b2 = b1(output_volume \<mapsto> \<lparr>data = strided, roi = requested, resolution = res\<rparr>)"
    by (rule downsample_pair_Inr)
  define vo where "vo = \<lparr>data = strided, roi = requested, resolution = res\<rparr>"
  from valid have "output_volume \<notin> set (outputs post)"
    by (simp add: outputs_def)
  with rest have "b3 output_volume = b2 output_volume" by (rule downsample_pass_keeps)
  then have "b3 output_volume = Some vo" by (simp add: b2 vo_def)
  with restore have out: "b' output_volume = Some vo"
    by (rule restore_pass_keeps) (simp add: vo_def reqd)
  have elems: "aget strided j =
      aget (data v) (map2 (+) (map2 (-) (offset scaled) (offset (roi v)))
        (map2 (*) (strides f (length j)) j))" if j: "inside j (shape requested)" for j
  proof -
    from sc wf have ls: "length (offset scaled) = ?n"
      and mul: "coord_mul (shape requested) f = Inr (shape scaled)"
      by (rule scale_roi_Inr)+
    from mul have lss: "length (shape scaled) = ?n" by (rule length_coord_mul)
    from mul have lk: "length (strides f ?n) = ?n" by (rule coord_mul_strides)
    from j have lj: "length j = ?n"
      by (auto simp: inside_def dest: list_all2_lengthD)
    have jd: "0 \<le> j ! d \<and> j ! d < shape requested ! d" if "d < ?n" for d
      using j that lj by (auto simp: inside_def list_all2_conv_all_nth)
    have kd: "0 < strides f ?n ! d" if "d < ?n" for d
      using positive that lk by (intro strides_positive) simp_all
    have sd: "0 < shape scaled ! d" if "d < ?n" for d
    proof -
      have "shape scaled ! d = shape requested ! d * strides f ?n ! d"
        using mul that by (rule coord_mul_strides)
      moreover have "0 < shape requested ! d" using jd [OF that] by simp
      ultimately show ?thesis using kd [OF that] by simp
    qed
    have "\<not> roi_empty scaled"
      using sd lss by (auto simp: roi_empty_def list_ex_iff in_set_conv_nth) (metis not_le)
    with cov have below: "list_all2 (\<le>) (offset (roi v)) (offset scaled)"
      by (simp add: contains_def get_begin_def)
    then have lv: "length (offset (roi v)) = ?n"
      using ls by (auto dest: list_all2_lengthD)
    from win lv ls have w: "offset window = map2 (-) (offset scaled) (offset (roi v))"
      "shape window = shape scaled"
      by (auto simp: roi_sub_def coord_sub_def coord_zip_def get_begin_def ebind_eq_Inr
          split: if_splits)
    have lw: "length (offset window) = ?n" "length (shape window) = ?n"
      using w ls lv lss by simp_all
    have stride': "np_getitem cropped (map (\<lambda>k. Slice None None (Some k)) (strides f ?n))
        = Inr strided"
      using stride lv by (simp add: stride_slices_strides dims_def)
    have lstr: "length (ashape strided) = ?n"
      using shp by (simp add: get_shape_def)
    have pos: "0 \<le> offset window ! d \<and> 0 < strides f ?n ! d \<and> 0 < shape window ! d"
      if "d < ?n" for d
    proof -
      from below that lv have "offset (roi v) ! d \<le> offset scaled ! d"
        by (simp add: list_all2_conv_all_nth)
      then have "0 \<le> offset window ! d"
        using w(1) that ls lv by simp
      with kd [OF that] sd [OF that] w(2) show ?thesis by simp
    qed
    have "inside j (ashape strided)"
      using j shp by (simp add: get_shape_def)
    with crop stride' lw lk lstr pos
    have "aget strided j = aget (data v) (map2 (+) (offset window) (map2 (*) (strides f ?n) j))"
      by (intro crop_stride_get [of "data v" window cropped "strides f ?n" strided ?n j])
    then show ?thesis by (simp add: w(1) lj)
  qed
  show ?thesis
    using sc out res shp elems
    by (intro exI [of _ scaled] exI [of _ vo]) (simp add: vo_def get_shape_def)
qed

theorem process_downsamples_witness:
  "\<exists>b' vo. process scenario_config [''A'' \<mapsto> scenario_volume]
        [''B'' \<mapsto> scenario_roi, ''A'' \<mapsto> \<lparr>offset = [0, 0, 0], shape = [2, 2, 2]\<rparr>] = Inr b'
     \<and> b' ''B'' = Some vo \<and> roi vo = scenario_roi \<and> resolution vo = [8, 8, 8]
     \<and> ashape (data vo) = [4, 4, 4] \<and> aget (data vo) [1, 2, 3] = 12"
proof -
  let ?req = "[''B'' \<mapsto> scenario_roi, ''A'' \<mapsto> \<lparr>offset = [0, 0, 0], shape = [2, 2, 2]\<rparr>]"
  let ?b = "[''A'' \<mapsto> scenario_volume]"
  obtain b' where run: "process ([] @ (''A'', Uniform 2, ''B'') # []) ?b ?req = Inr b'"
    using scenario_full_run by (auto simp: scenario_config_def)
  have "\<exists>scaled vo. scale_roi scenario_roi (Uniform 2) = Inr scaled
           \<and> b' ''B'' = Some vo
           \<and> roi vo = scenario_roi
           \<and> coord_mul (resolution scenario_volume) (Uniform 2) = Inr (resolution vo)
           \<and> ashape (data vo) = shape scenario_roi
           \<and> (\<forall>j. inside j (shape scenario_roi) \<longrightarrow>
                 aget (data vo) j =
                   aget (data scenario_volume)
                     (map2 (+) (map2 (-) (offset scaled) (offset (roi scenario_volume)))
                        (map2 (*) (strides (Uniform 2) (length j)) j)))"
    by (rule process_downsamples [OF _ _ _ _ _ _ run, of ?b scenario_volume scenario_roi])
       (simp_all add: outputs_def factor_positive_def scenario_roi_def)
  then obtain vo where vo: "b' ''B'' = Some vo" "roi vo = scenario_roi"
    "coord_mul (resolution scenario_volume) (Uniform 2) = Inr (resolution vo)"
    "ashape (data vo) = shape scenario_roi"
    and el: "\<And>j. inside j (shape scenario_roi) \<Longrightarrow>
                 aget (data vo) j =
                   aget (data scenario_volume)
                     (map2 (+) (map2 (-) [- 2, - 2, - 2] (offset (roi scenario_volume)))
                        (map2 (*) (strides (Uniform 2) (length j)) j))"
    by (auto simp: scenario_scale)
  have "inside [1, 2, 3] (shape scenario_roi)"
    by (simp add: inside_def scenario_roi_def)
  then have "aget (data vo) [1, 2, 3] = 12"
    by (simp add: el scenario_volume_def numeral_3_eq_3)
  moreover have "resolution vo = [8, 8, 8]"
    using vo(3) by (simp add: scenario_volume_def)
  moreover have "ashape (data vo) = [4, 4, 4]"
    using vo(4) by (simp add: scenario_roi_def)
  ultimately show ?thesis
    using run vo(1,2) by (auto simp: scenario_config_def)
qed

text \<open>
  C3, as stated, fails: in the valid configuration \<open>{B: (2, C), A: (2, B)}\<close> the output
  type \<open>B\<close> of the pair \<open>(A, 2, B)\<close> is absent from the incoming request
  \<open>{C: ROI(offset=(0,0,0), shape=(4,4,4))}\<close>, and yet the pair does not leave the request
  unchanged: by its turn the first pair has put \<open>B\<close> into the request, and
  \<^verbatim>\<open>prepare\<close> ends with \<open>{A: ROI(offset=(-6,-6,-6), shape=(16,16,16))}\<close>, not with
  \<open>{B: ROI(offset=(-2,-2,-2), shape=(8,8,8))}\<close>.
\<close>

theorem prepare_incoming_counterexample:
  "valid_config reversed_chain_config
   \<and> (''A'', Uniform 2, ''B'') \<in> set reversed_chain_config
   \<and> [''C'' \<mapsto> scenario_roi] ''B'' = None
   \<and> prepare reversed_chain_config [''C'' \<mapsto> scenario_roi]
       = Inr [''A'' \<mapsto> \<lparr>offset = [- 6, - 6, - 6], shape = [16, 16, 16]\<rparr>]
   \<and> prepare reversed_chain_config [''C'' \<mapsto> scenario_roi]
       \<noteq> Inr [''B'' \<mapsto> \<lparr>offset = [- 2, - 2, - 2], shape = [8, 8, 8]\<rparr>]"
proof -
  have run: "prepare reversed_chain_config [''C'' \<mapsto> scenario_roi]
       = Inr [''A'' \<mapsto> \<lparr>offset = [- 6, - 6, - 6], shape = [16, 16, 16]\<rparr>]"
    by (simp add: reversed_chain_config_def prepare_pair_def scenario_scale scenario_scale2)
  have "[''A'' \<mapsto> \<lparr>offset = [- 6, - 6, - 6], shape = [16, 16, 16 :: int]\<rparr>]
      \<noteq> [''B'' \<mapsto> \<lparr>offset = [- 2, - 2, - 2], shape = [8, 8, 8 :: int]\<rparr>]"
  proof
    assume "[''A'' \<mapsto> \<lparr>offset = [- 6, - 6, - 6], shape = [16, 16, 16 :: int]\<rparr>]
      = [''B'' \<mapsto> \<lparr>offset = [- 2, - 2, - 2], shape = [8, 8, 8 :: int]\<rparr>]"
    then have "[''A'' \<mapsto> \<lparr>offset = [- 6, - 6, - 6], shape = [16, 16, 16 :: int]\<rparr>] ''B''
      = [''B'' \<mapsto> \<lparr>offset = [- 2, - 2, - 2], shape = [8, 8, 8 :: int]\<rparr>] ''B''"
      by (rule fun_cong)
    then show False by simp
  qed
  with run show ?thesis
    by (simp add: reversed_chain_config_def valid_config_def inputs_def outputs_def)
qed

text \<open>
  C3, amended. For every valid configuration in which no output volume type is also an
  input volume type, every configured pair \<open>(input, f, output)\<close> and every incoming
  request on which \<^verbatim>\<open>prepare\<close> returns: if the output type is present in the
  incoming request, the returned request holds for the input type the union of the
  incoming entry with the center-preserving scale of the output's entry when the input
  type is a key of the incoming request, and that scale itself otherwise, and the output
  type is not a key of it; if the output type is absent from the incoming request, the
  entry of the input type is as in the incoming request and the output type stays absent.
\<close>

theorem prepare_incoming_effect:
  assumes valid: "valid_config cfg"
    and disj: "set (inputs cfg) \<inter> set (outputs cfg) = {}"
    and pair: "(input_volume, f, output_volume) \<in> set cfg"
    and ok: "prepare cfg req = Inr req'"
  shows "(case req output_volume of
            None \<Rightarrow> req' input_volume = req input_volume \<and> req' output_volume = None
          | Some requested \<Rightarrow>
              (\<exists>scaled. scale_roi requested f = Inr scaled
                 \<and> (case req input_volume of
                       None \<Rightarrow> req' input_volume = Some scaled
                     | Some existing \<Rightarrow>
                         (\<exists>merged. roi_union existing scaled = Inr merged
                            \<and> req' input_volume = Some merged))
                 \<and> req' output_volume = None))"
proof -
  from pair obtain pre post where cfg: "cfg = pre @ (input_volume, f, output_volume) # post"
    by (auto dest: split_list)
  from valid have d_in: "input_volume \<notin> set (inputs pre)" "input_volume \<notin> set (inputs post)"
    and d_out: "output_volume \<notin> set (outputs pre)" "output_volume \<notin> set (outputs post)"
    by (auto simp: cfg valid_config_def inputs_def outputs_def)
  from disj have x_in: "input_volume \<notin> set (outputs pre)" "input_volume \<notin> set (outputs post)"
    and x_out: "output_volume \<notin> set (inputs pre)" "output_volume \<notin> set (inputs post)"
    and ne: "input_volume \<noteq> output_volume"
    by (auto simp: cfg inputs_def outputs_def)
  from ok obtain r1 r2 where r1: "prepare pre req = Inr r1"
    and r2: "prepare_pair input_volume f output_volume r1 = Inr r2"
    and r3: "prepare post r2 = Inr req'"
    by (auto simp: cfg prepare_append ebind_eq_Inr)
  have before: "r1 input_volume = req input_volume" "r1 output_volume = req output_volume"
    using prepare_untouched [OF r1] d_in d_out x_in x_out by simp_all
  have after: "req' input_volume = r2 input_volume" "req' output_volume = r2 output_volume"
    using prepare_untouched [OF r3] d_in d_out x_in x_out by simp_all
  show ?thesis
  proof (cases "req output_volume")
    case None
    with r2 before have "r2 = r1" by (simp add: prepare_pair_def)
    with None before after show ?thesis by simp
  next
    case (Some requested)
    with r2 before obtain scaled merged where sm: "scale_roi requested f = Inr scaled"
      "(case req input_volume of Some existing \<Rightarrow> roi_union existing scaled
          | None \<Rightarrow> Inr scaled) = Inr merged"
      "r2 = (r1(input_volume \<mapsto> merged))(output_volume := None)"
      by (auto simp: prepare_pair_def ebind_eq_Inr)
    from sm(3) ne after have "req' input_volume = Some merged" "req' output_volume = None"
      by simp_all
    with sm(1,2) Some show ?thesis
      by (auto split: option.splits)
  qed
qed

theorem prepare_incoming_effect_witness:
  "\<exists>req'. prepare scenario_config
        [''B'' \<mapsto> scenario_roi, ''A'' \<mapsto> \<lparr>offset = [0, 0, 0], shape = [9, 2, 2]\<rparr>] = Inr req'
     \<and> scale_roi scenario_roi (Uniform 2) = Inr \<lparr>offset = [- 2, - 2, - 2], shape = [8, 8, 8]\<rparr>
     \<and> roi_union \<lparr>offset = [0, 0, 0], shape = [9, 2, 2]\<rparr> \<lparr>offset = [- 2, - 2, - 2], shape = [8, 8, 8]\<rparr>
         = Inr \<lparr>offset = [- 2, - 2, - 2], shape = [11, 8, 8]\<rparr>
     \<and> req' ''A'' = Some \<lparr>offset = [- 2, - 2, - 2], shape = [11, 8, 8]\<rparr> \<and> req' ''B'' = None"
proof -
  let ?req = "[''B'' \<mapsto> scenario_roi, ''A'' \<mapsto> \<lparr>offset = [0, 0, 0], shape = [9, 2, 2]\<rparr>]"
  have u: "roi_union \<lparr>offset = [0, 0, 0], shape = [9, 2, 2]\<rparr> \<lparr>offset = [- 2, - 2, - 2], shape = [8, 8, 8]\<rparr>
         = Inr \<lparr>offset = [- 2, - 2, - 2], shape = [11, 8, 8]\<rparr>"
    by (simp add: roi_union_def get_begin_def get_end_def coord_sub_def coord_zip_def)
  obtain req' where p: "prepare scenario_config ?req = Inr req'"
    by (simp add: scenario_config_def prepare_pair_def scenario_scale u)
  have v: "valid_config scenario_config"
    "set (inputs scenario_config) \<inter> set (outputs scenario_config) = {}"
    "(''A'', Uniform 2, ''B'') \<in> set scenario_config"
    by (simp_all add: scenario_config_def valid_config_def inputs_def outputs_def)
  from prepare_incoming_effect [OF v p]
  have "req' ''A'' = Some \<lparr>offset = [- 2, - 2, - 2], shape = [11, 8, 8]\<rparr> \<and> req' ''B'' = None"
    by (simp add: scenario_scale u)
  with p u show ?thesis by (simp add: scenario_scale)
qed










lemma restore_pass_other:
  "restore_pass cfg req b = Inr b' \<Longrightarrow> k \<notin> set (inputs cfg) \<Longrightarrow> b' k = b k"
proof (induction cfg arbitrary: b)
  case Nil
  then show ?case by simp
next
  case (Cons p cfg)
  obtain i f out where p: "p = (i, f, out)" by (cases p)
  from Cons.prems(1) obtain b1 where b1: "restore_pair i req b = Inr b1"
    "restore_pass cfg req b1 = Inr b'"
    by (auto simp: p ebind_eq_Inr)
  from Cons.prems(2) have k: "k \<noteq> i" "k \<notin> set (inputs cfg)"
    by (simp_all add: p inputs_def)
  from b1(2) k(2) have "b' k = b1 k" by (rule Cons.IH)
  also from b1(1) k(1) have "b1 k = b k" by (rule restore_pair_other)
  finally show ?case .
qed

lemma restore_pair_absent:
  "restore_pair i req b = Inr b' \<Longrightarrow> b k = None \<Longrightarrow> b' k = None"
  by (auto simp: restore_pair_def lookup_def Let_def ebind_eq_Inr
      split: option.splits if_splits)

lemma restore_pass_absent:
  "restore_pass cfg req b = Inr b' \<Longrightarrow> b k = None \<Longrightarrow> b' k = None"
proof (induction cfg arbitrary: b)
  case Nil
  then show ?case by simp
next
  case (Cons p cfg)
  obtain i f out where p: "p = (i, f, out)" by (cases p)
  from Cons.prems(1) obtain b1 where b1: "restore_pair i req b = Inr b1"
    "restore_pass cfg req b1 = Inr b'"
    by (auto simp: p ebind_eq_Inr)
  from b1(1) Cons.prems(2) have "b1 k = None" by (rule restore_pair_absent)
  with b1(2) show ?case by (rule Cons.IH)
qed

lemma restore_pair_Inr:
  assumes run: "restore_pair i req b = Inr b'" and v1: "b i = Some v1"
  shows "\<exists>v. b' i = Some v \<and> req i = Some (roi v) \<and> resolution v = resolution v1
    \<and> (roi v1 = roi v \<longrightarrow> v = v1)
    \<and> (roi v1 \<noteq> roi v \<longrightarrow> contains (roi v1) (roi v)
       \<and> (\<exists>window. roi_sub (roi v) (get_begin (roi v1)) = Inr window
             \<and> np_getitem (data v1) (get_bounding_box window) = Inr (data v)))"
proof (cases "req i")
  case None
  with run v1 show ?thesis by (simp add: restore_pair_def lookup_def)
next
  case (Some r)
  show ?thesis
  proof (cases "roi v1 = r")
    case True
    with run v1 Some have "b' = b" by (simp add: restore_pair_def lookup_def)
    with v1 Some True show ?thesis by (intro exI [of _ v1]) simp
  next
    case False
    with run v1 Some have cov: "contains (roi v1) r"
      by (auto simp: restore_pair_def lookup_def Let_def split: if_splits)
    with run v1 Some False obtain window cropped where
      w: "roi_sub r (get_begin (roi v1)) = Inr window"
      and c: "np_getitem (data v1) (get_bounding_box window) = Inr cropped"
      and b': "b' = b(i \<mapsto> v1\<lparr>data := cropped, roi := r\<rparr>)"
      by (simp add: restore_pair_def lookup_def Let_def ebind_eq_Inr) blast
    show ?thesis
      using Some False cov w c b'
      by (intro exI [of _ "v1\<lparr>data := cropped, roi := r\<rparr>"]) simp
  qed
qed

lemma crop_get:
  assumes crop: "np_getitem arr (get_bounding_box w) = Inr cropped"
    and len: "length (offset w) = n" "length (shape w) = n" "length (ashape arr) = n"
    and fits: "\<And>d. d < n \<Longrightarrow>
        0 \<le> offset w ! d \<and> 0 \<le> shape w ! d \<and> offset w ! d + shape w ! d \<le> ashape arr ! d"
  shows "ashape cropped = shape w"
    and "length j = n \<Longrightarrow> aget cropped j = aget arr (map2 (+) (offset w) j)"
proof -
  let ?g = "\<lambda>(start, step, len) j. start + step * (j :: int)"
  from crop obtain ts where ts: "slice_dims (ashape arr) (get_bounding_box w) = Inr ts"
    and c_shape: "ashape cropped = map (\<lambda>(start, step, len). len) ts"
    and c_get: "aget cropped = (\<lambda>idx. aget arr (map2 ?g ts idx))"
    by (rule np_getitem_Inr)
  have "length ts = length (ashape arr)" using ts by (rule length_slice_dims)
  then have lt: "length ts = n" using len(3) by simp
  have lb: "length (get_bounding_box w) = n"
    using len(1,2) by (rule length_bounding_box_eq)
  have nth: "ts ! d = (offset w ! d, 1, shape w ! d)" if d: "d < n" for d
  proof -
    have "slice_indices (ashape arr ! d) (get_bounding_box w ! d) = Inr (ts ! d)"
      using ts d lb by (intro slice_dims_nth) simp_all
    then have "slice_indices (ashape arr ! d)
        (Slice (Some (offset w ! d)) (Some (offset w ! d + shape w ! d)) None) = Inr (ts ! d)"
      using bounding_box_nth [OF len(1,2) d] by simp
    moreover have "slice_indices (ashape arr ! d)
        (Slice (Some (offset w ! d)) (Some (offset w ! d + shape w ! d)) None)
        = Inr (offset w ! d, 1, shape w ! d)"
      using fits [OF d] by (intro slice_window) simp_all
    ultimately show ?thesis by simp
  qed
  show "ashape cropped = shape w"
    unfolding c_shape
  proof (rule nth_equalityI)
    show "length (map (\<lambda>(start, step, len). len) ts) = length (shape w)"
      using lt len(2) by simp
  next
    fix d assume "d < length (map (\<lambda>(start, step, len). len) ts)"
    then have "d < n" using lt by simp
    then show "map (\<lambda>(start, step, len). len) ts ! d = shape w ! d"
      using nth lt by simp
  qed
  show "aget cropped j = aget arr (map2 (+) (offset w) j)" if lj: "length j = n"
  proof -
    have "map2 ?g ts j = map2 (+) (offset w) j"
    proof (rule nth_equalityI)
      show "length (map2 ?g ts j) = length (map2 (+) (offset w) j)"
        using lt lj len(1) by simp
    next
      fix d assume "d < length (map2 ?g ts j)"
      then have "d < n" using lt lj by simp
      then show "map2 ?g ts j ! d = map2 (+) (offset w) j ! d"
        using nth lt lj len(1) by simp
    qed
    then show ?thesis by (simp add: c_get)
  qed
qed

lemma map2_sub_self_add:
  assumes "length (a :: int list) = length j"
  shows "map2 (+) (map2 (-) a a) j = j"
proof (rule nth_equalityI)
  show "length (map2 (+) (map2 (-) a a) j) = length j" using assms by simp
next
  fix d assume "d < length (map2 (+) (map2 (-) a a) j)"
  then have "d < length a" "d < length j" using assms by simp_all
  then show "map2 (+) (map2 (-) a a) j ! d = j ! d" by simp
qed

lemma restored_data:
  assumes inv: "volume_invariant v1" and rinv: "roi_invariant r" and ne: "\<not> roi_empty r"
    and cov: "contains (roi v1) r"
    and win: "roi_sub r (get_begin (roi v1)) = Inr window"
    and crop: "np_getitem (data v1) (get_bounding_box window) = Inr cropped"
  shows "ashape cropped = shape r"
    and "inside j (shape r) \<Longrightarrow>
           aget cropped j = aget (data v1) (map2 (+) (map2 (-) (offset r) (offset (roi v1))) j)"
proof -
  let ?n = "length (shape r)"
  from cov ne have below: "list_all2 (\<le>) (offset (roi v1)) (offset r)"
    and above: "list_all2 (\<le>) (get_end r) (get_end (roi v1))"
    by (simp_all add: contains_def get_begin_def)
  from rinv have lr: "length (offset r) = ?n" and nonneg: "list_all (\<lambda>s. 0 \<le> s) (shape r)"
    by (simp_all add: roi_invariant_def)
  from below lr have lv: "length (offset (roi v1)) = ?n"
    by (auto dest: list_all2_lengthD)
  from inv lv have lvs: "length (shape (roi v1)) = ?n" and la: "length (ashape (data v1)) = ?n"
    and sh: "ashape (data v1) = shape (roi v1)"
    by (simp_all add: volume_invariant_def roi_invariant_def)
  from win lv lr have w: "offset window = map2 (-) (offset r) (offset (roi v1))"
    "shape window = shape r"
    by (auto simp: roi_sub_def coord_sub_def coord_zip_def get_begin_def ebind_eq_Inr
        split: if_splits)
  have lw: "length (offset window) = ?n" "length (shape window) = ?n"
    using w lr lv by simp_all
  have fits: "0 \<le> offset window ! d \<and> 0 \<le> shape window ! d
      \<and> offset window ! d + shape window ! d \<le> ashape (data v1) ! d" if d: "d < ?n" for d
  proof -
    from below d lv have 1: "offset (roi v1) ! d \<le> offset r ! d"
      by (simp add: list_all2_conv_all_nth)
    from above d lr lv lvs have 2: "offset r ! d + shape r ! d \<le> offset (roi v1) ! d + shape (roi v1) ! d"
      by (simp add: list_all2_conv_all_nth get_end_def)
    from nonneg d have 3: "0 \<le> shape r ! d"
      by (simp add: list_all_length)
    from 1 2 3 show ?thesis
      using w d lr lv sh by simp
  qed
  from crop lw la fits show "ashape cropped = shape r"
    using w(2) crop_get(1) [of "data v1" window cropped ?n] by simp
  show "aget cropped j = aget (data v1) (map2 (+) (map2 (-) (offset r) (offset (roi v1))) j)"
    if j: "inside j (shape r)"
  proof -
    from j have "length j = ?n"
      by (auto simp: inside_def dest: list_all2_lengthD)
    with crop lw la fits
    have "aget cropped j = aget (data v1) (map2 (+) (offset window) j)"
      by (intro crop_get(2) [of "data v1" window cropped ?n j])
    then show ?thesis by (simp add: w(1))
  qed
qed

text \<open>
  C2. After \<^verbatim>\<open>process\<close> returns, every configured input volume type that is present
  in the batch has a volume whose ROI is exactly that volume type's entry in the request,
  and the extra region is cropped away: with \<open>v1\<close> the volume the restore pass finds
  under the input type, the resolution is that of \<open>v1\<close>; the volume is \<open>v1\<close> itself
  when the ROI of \<open>v1\<close> is already the requested one, and otherwise its data is the
  sub-array of the data of \<open>v1\<close> addressed by the requested ROI relative to the begin of
  the ROI of \<open>v1\<close>. When \<open>v1\<close> has its data shaped as its ROI and the requested ROI is
  well-formed and not empty, the data has the shape of the requested ROI and holds at every
  index \<open>j\<close> inside it the element of \<open>v1\<close> at
  \<open>(requested.offset - v1.roi.offset) + j\<close>.
\<close>

theorem process_restores_inputs:
  assumes ok: "process cfg b req = Inr b'"
    and conf: "input_volume \<in> set (inputs cfg)"
    and present: "b' input_volume = Some v"
  shows "req input_volume = Some (roi v)
     \<and> (\<exists>b1 v1. downsample_pass cfg req b = Inr b1 \<and> b1 input_volume = Some v1
           \<and> resolution v = resolution v1
           \<and> (roi v1 = roi v \<longrightarrow> v = v1)
           \<and> (roi v1 \<noteq> roi v \<longrightarrow> contains (roi v1) (roi v)
                \<and> (\<exists>window. roi_sub (roi v) (get_begin (roi v1)) = Inr window
                      \<and> np_getitem (data v1) (get_bounding_box window) = Inr (data v)))
           \<and> (volume_invariant v1 \<and> roi_invariant (roi v) \<and> \<not> roi_empty (roi v) \<longrightarrow>
                ashape (data v) = shape (roi v)
                \<and> (\<forall>j. inside j (shape (roi v)) \<longrightarrow>
                      aget (data v) j =
                        aget (data v1) (map2 (+) (map2 (-) (offset (roi v)) (offset (roi v1))) j))))"
proof -
  from ok obtain b1 where first: "downsample_pass cfg req b = Inr b1"
    and restore: "restore_pass cfg req b1 = Inr b'"
    by (auto simp: process_def ebind_eq_Inr)
  from conf have "\<exists>p \<in> set cfg. fst p = input_volume"
    by (auto simp: inputs_def)
  from split_list_first_prop [OF this]
  obtain pre p post where cfg: "cfg = pre @ p # post" and p: "fst p = input_volume"
    and np: "\<forall>q \<in> set pre. fst q \<noteq> input_volume"
    by blast
  obtain f out where p': "p = (input_volume, f, out)"
    using p by (cases p) auto
  from np have npre: "input_volume \<notin> set (inputs pre)"
    by (auto simp: inputs_def)
  from restore obtain b2 b3 where r1: "restore_pass pre req b1 = Inr b2"
    and r2: "restore_pair input_volume req b2 = Inr b3"
    and r3: "restore_pass post req b3 = Inr b'"
    by (auto simp: cfg p' restore_pass_append ebind_eq_Inr)
  from r1 npre have same: "b2 input_volume = b1 input_volume" by (rule restore_pass_other)
  have "b2 input_volume \<noteq> None"
  proof
    assume "b2 input_volume = None"
    with r2 have "b3 input_volume = None" by (rule restore_pair_absent)
    with r3 have "b' input_volume = None" by (rule restore_pass_absent)
    with present show False by simp
  qed
  then obtain v1 where v1: "b2 input_volume = Some v1" by auto
  from restore_pair_Inr [OF r2 v1]
  obtain v3 where v3: "b3 input_volume = Some v3" "req input_volume = Some (roi v3)"
    "resolution v3 = resolution v1" "roi v1 = roi v3 \<longrightarrow> v3 = v1"
    "roi v1 \<noteq> roi v3 \<longrightarrow> contains (roi v1) (roi v3)
       \<and> (\<exists>window. roi_sub (roi v3) (get_begin (roi v1)) = Inr window
             \<and> np_getitem (data v1) (get_bounding_box window) = Inr (data v3))"
    by blast
  from r3 v3(1,2) have "b' input_volume = Some v3" by (rule restore_pass_keeps)
  with present have vv: "v3 = v" by simp
  have data_part: "ashape (data v) = shape (roi v)
      \<and> (\<forall>j. inside j (shape (roi v)) \<longrightarrow>
            aget (data v) j =
              aget (data v1) (map2 (+) (map2 (-) (offset (roi v)) (offset (roi v1))) j))"
    if inv: "volume_invariant v1" and rinv: "roi_invariant (roi v)" and ne: "\<not> roi_empty (roi v)"
  proof (cases "roi v1 = roi v")
    case True
    with v3(4) vv have eq: "v = v1" by simp
    from inv have sh: "ashape (data v1) = shape (roi v1)"
      "length (offset (roi v1)) = length (shape (roi v1))"
      by (simp_all add: volume_invariant_def roi_invariant_def)
    have "map2 (+) (map2 (-) (offset (roi v1)) (offset (roi v1))) j = j"
      if "inside j (shape (roi v1))" for j
    proof -
      from that have "length j = length (shape (roi v1))"
        by (auto simp: inside_def dest: list_all2_lengthD)
      with sh(2) show ?thesis by (intro map2_sub_self_add) simp
    qed
    with sh(1) eq show ?thesis by simp
  next
    case False
    with v3(5) vv obtain window where cov: "contains (roi v1) (roi v)"
      and win: "roi_sub (roi v) (get_begin (roi v1)) = Inr window"
      and crop: "np_getitem (data v1) (get_bounding_box window) = Inr (data v)"
      by auto
    from restored_data [OF inv rinv ne cov win crop] show ?thesis by simp
  qed
  show ?thesis
    using first v1 same v3 vv data_part
    by (intro conjI exI [of _ b1] exI [of _ v1]) auto
qed

theorem process_restores_inputs_witness:
  "\<exists>b' v. process scenario_config [''A'' \<mapsto> scenario_volume]
      [''B'' \<mapsto> scenario_roi, ''A'' \<mapsto> \<lparr>offset = [0, 0, 0], shape = [2, 2, 2]\<rparr>] = Inr b'
     \<and> b' ''A'' = Some v \<and> roi v = \<lparr>offset = [0, 0, 0], shape = [2, 2, 2]\<rparr>
     \<and> resolution v = [4, 4, 4] \<and> ashape (data v) = [2, 2, 2]
     \<and> aget (data v) [1, 1, 1] = aget (data scenario_volume) [3, 3, 3]"
proof -
  let ?ra = "\<lparr>offset = [0, 0, 0], shape = [2, 2, 2]\<rparr>"
  let ?req = "[''B'' \<mapsto> scenario_roi, ''A'' \<mapsto> ?ra]"
  let ?b = "[''A'' \<mapsto> scenario_volume]"
  obtain b' v where run: "process scenario_config ?b ?req = Inr b'"
    and present: "b' ''A'' = Some v"
    using scenario_full_run by auto
  have conf: "''A'' \<in> set (inputs scenario_config)"
    by (simp add: scenario_config_def inputs_def)
  from process_restores_inputs [OF run conf present]
  obtain b1 v1 where r: "?req ''A'' = Some (roi v)"
    and first: "downsample_pass scenario_config ?req ?b = Inr b1"
    and v1: "b1 ''A'' = Some v1"
    and res: "resolution v = resolution v1"
    and dat: "volume_invariant v1 \<and> roi_invariant (roi v) \<and> \<not> roi_empty (roi v) \<longrightarrow>
                ashape (data v) = shape (roi v)
                \<and> (\<forall>j. inside j (shape (roi v)) \<longrightarrow>
                      aget (data v) j =
                        aget (data v1) (map2 (+) (map2 (-) (offset (roi v)) (offset (roi v1))) j))"
    by blast
  from r have roi_v: "roi v = ?ra" by simp
  have "''A'' \<notin> set (outputs scenario_config)"
    by (simp add: scenario_config_def outputs_def)
  with first have "b1 ''A'' = ?b ''A''" by (rule downsample_pass_keeps)
  with v1 have v1_eq: "v1 = scenario_volume" by simp
  have "volume_invariant scenario_volume" "roi_invariant ?ra" "\<not> roi_empty ?ra"
    by (simp_all add: scenario_volume_def volume_invariant_def roi_invariant_def roi_empty_def)
  with dat roi_v v1_eq have shape_v: "ashape (data v) = [2, 2, 2]"
    and el: "\<And>j. inside j [2, 2, 2] \<Longrightarrow>
        aget (data v) j =
          aget (data scenario_volume) (map2 (+) (map2 (-) [0, 0, 0] (offset (roi scenario_volume))) j)"
    by simp_all
  have "inside [1, 1, 1] [2, 2, 2]" by (simp add: inside_def)
  from el [OF this] have "aget (data v) [1, 1, 1] = aget (data scenario_volume) [3, 3, 3]"
    by (simp add: scenario_volume_def)
  moreover from res v1_eq have "resolution v = [4, 4, 4]"
    by (simp add: scenario_volume_def)
  ultimately show ?thesis
    using run present roi_v shape_v by blast
qed

end
